theory Spec2Isabelle
  imports Main
begin

section \<open>Data contracts\<close>

text \<open>
  The vector search service exists in three variants in the repository:
  \<^item> the \<open>env\<close> variant (\<open>vectorSearchMainService.ts\<close>, first document): Qdrant credentials
    come from the process environment, a request names a list of collections;
  \<^item> the \<open>single\<close> variant (\<open>vectorSearchMainService.ts\<close>, second document): a request
    names one collection, the registry consults its cache;
  \<^item> the \<open>user\<close> variant (\<open>part_000\<close>): Qdrant credentials come with the settings bundle
    of each request, the client is built on the first request that carries them.

  JavaScript numbers (scores, limits, vector components) and payloads are only passed
  through by this code, so they are type parameters \<open>'n\<close> and \<open>'p\<close>.
\<close>

datatype error =
    OpenAINotConfigured
  | QdrantConfigMissing
  | NoneOfCollectionsExist
  | CollectionDoesNotExist string
  | UnexpectedEmbeddingSize nat
  | ClientNotInitialized
  | CommandNotFound string
  | TypeError
  | Upstream string

text \<open>What the Qdrant client returns for one hit, and the service's own result type.\<close>

record ('n, 'p) hit =
  hit_id :: string
  score :: 'n
  payload :: 'p

record ('n, 'p) SearchResult = "('n, 'p) hit" +
  collection :: "string option"

text \<open>The settings bundle: \<open>args.settings\<close> is untyped, so every level may be absent.\<close>

record openAI_settings =
  endpoint :: string
  apiKey :: string
  didFillInProviderSettings :: bool

record global_settings =
  qdrantUrl :: "string option"
  qdrantApiKey :: "string option"

record settings =
  openAI :: "openAI_settings option"
  globalSettings :: "global_settings option"

record 'n SearchParams_common =
  query :: string
  limit :: 'n
  score_threshold :: 'n
  with_payload :: bool
  settings :: "settings option"

record 'n SearchParams = "'n SearchParams_common" +
  collectionNames :: "string list"

record 'n SearchParams_single = "'n SearchParams_common" +
  collectionName :: string

section \<open>The external services and the service state\<close>

text \<open>
  The three suspension points of the code are its network calls. Each call made is
  recorded, in order, in the \<open>trace\<close>; what the remote side answers is given by a
  \<open>world\<close>: the answer of the listing call, the answer of the embedding call (the
  \<open>embedding\<close> fields of \<open>response.data\<close>), and the answer of the \<open>i\<close>-th search call of
  the fan-out. An \<open>Inl\<close> answer is a rejected promise.
\<close>

datatype event =
    QdrantGetCollections
  | OpenAIEmbeddingsCreate string string
  | QdrantSearch string

record ('n, 'p) world =
  getCollections :: "error + string list"
  embeddings_create :: "string \<Rightarrow> string \<Rightarrow> error + 'n list list"
  search :: "nat \<Rightarrow> string \<Rightarrow> 'n list \<Rightarrow> 'n \<Rightarrow> 'n \<Rightarrow> bool \<Rightarrow> error + ('n, 'p) hit list"

record service =
  collections :: "string set"
  client :: "(string \<times> string) option"
  trace :: "event list"

definition EMBEDDING_MODEL :: string where
  "EMBEDDING_MODEL = ''text-embedding-3-small''"

definition VECTOR_SIZE :: nat where
  "VECTOR_SIZE = 1536"

definition record_call :: "event \<Rightarrow> service \<Rightarrow> service" where
  "record_call ev s = s\<lparr>trace := trace s @ [ev]\<rparr>"

text \<open>\<open>!x\<close> on an optional string: \<open>undefined\<close> and the empty string are falsy.\<close>

definition falsy :: "string option \<Rightarrow> bool" where
  "falsy x = (case x of None \<Rightarrow> True | Some v \<Rightarrow> v = [])"

section \<open>Collection registry\<close>

text \<open>\<open>initializeCollections\<close> of the env and single variants: best effort, errors swallowed.\<close>

definition initializeCollections :: "('n, 'p) world \<Rightarrow> service \<Rightarrow> service" where
  "initializeCollections w s =
     (let s1 = record_call QdrantGetCollections s in
      case getCollections w of
        Inl e \<Rightarrow> s1
      | Inr names \<Rightarrow> s1\<lparr>collections := fold insert names (collections s1)\<rparr>)"

text \<open>In the user variant the listing is only attempted when a client exists.\<close>

definition initializeCollections_user :: "('n, 'p) world \<Rightarrow> service \<Rightarrow> service" where
  "initializeCollections_user w s =
     (if client s \<noteq> None then initializeCollections w s else s)"

text \<open>
  The \<open>for\<close> loop of \<open>ensureCollectionsExist\<close>: it carries \<open>existingCollections\<close> and the
  cache \<open>this.collections\<close>.
\<close>

fun check_names :: "string set \<Rightarrow> string list \<Rightarrow> string list \<times> string set \<Rightarrow> string list \<times> string set" where
  "check_names availableCollections [] (existingCollections, cache) = (existingCollections, cache)"
| "check_names availableCollections (name # names) (existingCollections, cache) =
     (if name \<in> availableCollections
      then check_names availableCollections names (existingCollections @ [name], insert name cache)
      else check_names availableCollections names (existingCollections, cache))"

definition ensureCollectionsExist :: "('n, 'p) world \<Rightarrow> string list \<Rightarrow> service \<Rightarrow> string list \<times> service" where
  "ensureCollectionsExist w names s =
     (let s1 = record_call QdrantGetCollections s in
      case getCollections w of
        Inl e \<Rightarrow> ([], s1)
      | Inr listing \<Rightarrow>
          (case check_names (set listing) names ([], collections s1) of
             (existingCollections, cache) \<Rightarrow> (existingCollections, s1\<lparr>collections := cache\<rparr>)))"

definition ensureCollectionsExist_user :: "('n, 'p) world \<Rightarrow> string list \<Rightarrow> service \<Rightarrow> string list \<times> service" where
  "ensureCollectionsExist_user w names s =
     (if client s = None then ([], s) else ensureCollectionsExist w names s)"

definition ensureCollectionExists :: "('n, 'p) world \<Rightarrow> string \<Rightarrow> service \<Rightarrow> bool \<times> service" where
  "ensureCollectionExists w name s =
     (if name \<in> collections s then (True, s)
      else
        (let s1 = record_call QdrantGetCollections s in
         case getCollections w of
           Inl e \<Rightarrow> (False, s1)
         | Inr listing \<Rightarrow>
             (let exists = (name \<in> set listing) in
              (exists, if exists then s1\<lparr>collections := insert name (collections s1)\<rparr> else s1))))"

section \<open>Embedding\<close>

text \<open>
  The part shared by all variants: one embedding request, then the length check.
  \<open>response.data[0].embedding\<close> on an empty \<open>data\<close> is a TypeError.
\<close>

definition request_embedding :: "('n, 'p) world \<Rightarrow> string \<Rightarrow> service \<Rightarrow> (error + 'n list) \<times> service" where
  "request_embedding w text s =
     (let s1 = record_call (OpenAIEmbeddingsCreate EMBEDDING_MODEL text) s in
      case embeddings_create w EMBEDDING_MODEL text of
        Inl e \<Rightarrow> (Inl e, s1)
      | Inr data \<Rightarrow>
          (case data of
             [] \<Rightarrow> (Inl TypeError, s1)
           | embedding # _ \<Rightarrow>
               if length embedding \<noteq> VECTOR_SIZE
               then (Inl (UnexpectedEmbeddingSize (length embedding)), s1)
               else (Inr embedding, s1)))"

text \<open>
  \<open>getEmbedding(text, settings)\<close> of the env and single variants checks the provider
  settings itself; \<open>settings.openAI\<close> on an absent bundle is a TypeError.
\<close>

definition getEmbedding :: "('n, 'p) world \<Rightarrow> string \<Rightarrow> settings option \<Rightarrow> service \<Rightarrow> (error + 'n list) \<times> service" where
  "getEmbedding w text st s =
     (case st of
        None \<Rightarrow> (Inl TypeError, s)
      | Some bundle \<Rightarrow>
          (case openAI bundle of
             None \<Rightarrow> (Inl OpenAINotConfigured, s)
           | Some provider \<Rightarrow>
               if \<not> didFillInProviderSettings provider then (Inl OpenAINotConfigured, s)
               else request_embedding w text s))"

text \<open>\<open>getEmbedding(text, openai)\<close> of the user variant gets a ready client.\<close>

definition getEmbedding_user :: "('n, 'p) world \<Rightarrow> string \<Rightarrow> service \<Rightarrow> (error + 'n list) \<times> service" where
  "getEmbedding_user w text s = request_embedding w text s"

section \<open>Fan-out and aggregation\<close>

text \<open>\<open>{ ...result, collection: collectionName }\<close>\<close>

definition annotate :: "string \<Rightarrow> ('n, 'p) hit \<Rightarrow> ('n, 'p) SearchResult" where
  "annotate cname result =
     \<lparr>hit_id = hit_id result, score = score result, payload = payload result,
      collection = Some cname\<rparr>"

text \<open>
  One callback of \<open>existingCollections.map(async ...)\<close>: the network calls it issues and
  how its promise settles. Every callback runs up to its \<open>await\<close> when \<open>map\<close> is
  evaluated, so every search call is issued whatever the others answer.
\<close>

definition search_collection ::
  "('n, 'p) world \<Rightarrow> 'n list \<Rightarrow> ('n, 'x) SearchParams_common_scheme \<Rightarrow> nat \<times> string
     \<Rightarrow> event list \<times> (error + ('n, 'p) SearchResult list)" where
  "search_collection w embedding params ic =
     (case ic of (i, cname) \<Rightarrow>
        ([QdrantSearch cname],
         case search w i cname embedding (limit params) (score_threshold params) (with_payload params) of
           Inl e \<Rightarrow> Inl e
         | Inr results \<Rightarrow> Inr (map (annotate cname) results)))"

definition search_collection_user ::
  "('n, 'p) world \<Rightarrow> service \<Rightarrow> 'n list \<Rightarrow> ('n, 'x) SearchParams_common_scheme \<Rightarrow> nat \<times> string
     \<Rightarrow> event list \<times> (error + ('n, 'p) SearchResult list)" where
  "search_collection_user w s embedding params ic =
     (if client s = None then ([], Inl ClientNotInitialized)
      else search_collection w embedding params ic)"

text \<open>
  \<open>Promise.all\<close>: the list of values when every promise is fulfilled, a rejection
  otherwise. When several promises reject, JavaScript takes the one that rejects first
  in time; the model takes the first in list order.
\<close>

fun promise_all :: "(error + 'a) list \<Rightarrow> error + 'a list" where
  "promise_all [] = Inr []"
| "promise_all (Inl e # ps) = Inl e"
| "promise_all (Inr x # ps) = (case promise_all ps of Inl e \<Rightarrow> Inl e | Inr xs \<Rightarrow> Inr (x # xs))"

definition fan_out ::
  "(nat \<times> string \<Rightarrow> event list \<times> (error + ('n, 'p) SearchResult list)) \<Rightarrow> string list \<Rightarrow> service
     \<Rightarrow> (error + ('n, 'p) SearchResult list) \<times> service" where
  "fan_out callback existingCollections s =
     (let searchPromises = map callback (enumerate 0 existingCollections);
          s1 = s\<lparr>trace := trace s @ concat (map fst searchPromises)\<rparr>
      in case promise_all (map snd searchPromises) of
           Inl e \<Rightarrow> (Inl e, s1)
         | Inr allResults \<Rightarrow> (Inr (concat allResults), s1))"

section \<open>The search operation\<close>

definition call_env ::
  "('n, 'p) world \<Rightarrow> string \<Rightarrow> 'n SearchParams \<Rightarrow> service \<Rightarrow> (error + ('n, 'p) SearchResult list) \<times> service" where
  "call_env w command args s =
     (if command = ''search'' then
        (case ensureCollectionsExist w (collectionNames args) s of
           (existingCollections, s1) \<Rightarrow>
             if length existingCollections = 0 then (Inl NoneOfCollectionsExist, s1)
             else
               (case getEmbedding w (query args) (settings args) s1 of
                  (Inl e, s2) \<Rightarrow> (Inl e, s2)
                | (Inr embedding, s2) \<Rightarrow>
                    fan_out (search_collection w embedding args) existingCollections s2))
      else (Inl (CommandNotFound command), s))"

definition call_single ::
  "('n, 'p) world \<Rightarrow> string \<Rightarrow> 'n SearchParams_single \<Rightarrow> service \<Rightarrow> (error + ('n, 'p) hit list) \<times> service" where
  "call_single w command args s =
     (if command = ''search'' then
        (case ensureCollectionExists w (collectionName args) s of
           (collectionExists, s1) \<Rightarrow>
             if \<not> collectionExists then (Inl (CollectionDoesNotExist (collectionName args)), s1)
             else
               (case getEmbedding w (query args) (settings args) s1 of
                  (Inl e, s2) \<Rightarrow> (Inl e, s2)
                | (Inr embedding, s2) \<Rightarrow>
                    (search w 0 (collectionName args) embedding (limit args) (score_threshold args) (with_payload args),
                     record_call (QdrantSearch (collectionName args)) s2)))
      else (Inl (CommandNotFound command), s))"

text \<open>
  The user variant checks the settings first. \<open>settings?.openAI?._didFillInProviderSettings\<close>
  tolerates an absent bundle and an absent provider block; \<open>settings.globalSettings.qdrantUrl\<close>
  on an absent global block is a TypeError.
\<close>

definition provider_configured :: "settings option \<Rightarrow> bool" where
  "provider_configured st =
     (case st of
        None \<Rightarrow> False
      | Some bundle \<Rightarrow> (case openAI bundle of None \<Rightarrow> False | Some provider \<Rightarrow> didFillInProviderSettings provider))"

text \<open>\<open>if (!this.client) this.client = new QdrantClient({ url, apiKey })\<close>\<close>

definition ensure_client :: "global_settings \<Rightarrow> service \<Rightarrow> service" where
  "ensure_client g s =
     (if client s = None
      then s\<lparr>client := Some (case_option [] id (qdrantUrl g), case_option [] id (qdrantApiKey g))\<rparr>
      else s)"

definition call_user ::
  "('n, 'p) world \<Rightarrow> string \<Rightarrow> 'n SearchParams \<Rightarrow> service \<Rightarrow> (error + ('n, 'p) SearchResult list) \<times> service" where
  "call_user w command args s =
     (if command = ''search'' then
        if \<not> provider_configured (settings args) then (Inl OpenAINotConfigured, s)
        else
          (case settings args of
             None \<Rightarrow> (Inl TypeError, s)
           | Some bundle \<Rightarrow>
               (case globalSettings bundle of
                  None \<Rightarrow> (Inl TypeError, s)
                | Some g \<Rightarrow>
                    if falsy (qdrantUrl g) \<or> falsy (qdrantApiKey g) then (Inl QdrantConfigMissing, s)
                    else
                      (let s0 = ensure_client g s
                       in case ensureCollectionsExist_user w (collectionNames args) s0 of
                            (existingCollections, s1) \<Rightarrow>
                              if length existingCollections = 0 then (Inl NoneOfCollectionsExist, s1)
                              else
                                (case getEmbedding_user w (query args) s1 of
                                   (Inl e, s2) \<Rightarrow> (Inl e, s2)
                                 | (Inr embedding, s2) \<Rightarrow>
                                     fan_out (search_collection_user w s2 embedding args) existingCollections s2))))
      else (Inl (CommandNotFound command), s))"

section \<open>Service lifetime\<close>

text \<open>
  What can happen to a service object during its life: the unawaited
  \<open>initializeCollections\<close> of its constructor completes, or a \<open>call\<close> is served. Each
  step meets its own world, so the vector database may change between steps.
\<close>

datatype 'n request =
    Initialize
  | Initialize_user
  | Call string "'n SearchParams"
  | Call_user string "'n SearchParams"
  | Call_single string "'n SearchParams_single"

fun step :: "('n, 'p) world \<times> 'n request \<Rightarrow> service \<Rightarrow> service" where
  "step (w, Initialize) s = initializeCollections w s"
| "step (w, Initialize_user) s = initializeCollections_user w s"
| "step (w, Call command args) s = snd (call_env w command args s)"
| "step (w, Call_user command args) s = snd (call_user w command args s)"
| "step (w, Call_single command args) s = snd (call_single w command args s)"

definition run :: "(('n, 'p) world \<times> 'n request) list \<Rightarrow> service \<Rightarrow> service" where
  "run steps s = fold step steps s"

section \<open>Notions used to state the properties\<close>

text \<open>The global-settings block of a bundle, when there is one.\<close>

definition store_settings :: "settings option \<Rightarrow> global_settings option" where
  "store_settings st = (case st of None \<Rightarrow> None | Some bundle \<Rightarrow> globalSettings bundle)"

text \<open>The settings pass every check at the head of the user variant's \<open>call\<close>.\<close>

definition user_settings_accepted :: "settings option \<Rightarrow> global_settings \<Rightarrow> bool" where
  "user_settings_accepted st g \<longleftrightarrow>
     provider_configured st \<and> store_settings st = Some g \<and>
     \<not> falsy (qdrantUrl g) \<and> \<not> falsy (qdrantApiKey g)"

text \<open>
  The stages that the env and the user variant share once the settings are accepted:
  validation, embedding, fan-out. Both \<open>call\<close>s are shown equal to it below.
\<close>

definition search_pipeline ::
  "('n, 'p) world \<Rightarrow> 'n SearchParams \<Rightarrow> service \<Rightarrow> (error + ('n, 'p) SearchResult list) \<times> service" where
  "search_pipeline w args s =
     (case ensureCollectionsExist w (collectionNames args) s of
        (existingCollections, s1) \<Rightarrow>
          if existingCollections = [] then (Inl NoneOfCollectionsExist, s1)
          else
            (case request_embedding w (query args) s1 of
               (Inl e, s2) \<Rightarrow> (Inl e, s2)
             | (Inr embedding, s2) \<Rightarrow>
                 fan_out (search_collection w embedding args) existingCollections s2))"

text \<open>The hits of a fulfilled search call.\<close>

definition fulfilled :: "error + 'a list \<Rightarrow> 'a list" where
  "fulfilled r = (case r of Inl e \<Rightarrow> [] | Inr xs \<Rightarrow> xs)"

text \<open>
  The response that the specification describes: the hits of the search calls, each
  tagged with the collection searched, concatenated in the order of the confirmed
  collections.
\<close>

definition concatenated_hits ::
  "('n, 'p) world \<Rightarrow> 'n SearchParams \<Rightarrow> 'n list \<Rightarrow> string list \<Rightarrow> ('n, 'p) SearchResult list" where
  "concatenated_hits w args v confirmed =
     concat (map (\<lambda>(i, c). map (annotate c)
                    (fulfilled (search w i c v (limit args) (score_threshold args) (with_payload args))))
               (enumerate 0 confirmed))"

text \<open>The collection names that occur on a response.\<close>

definition collection_values :: "('n, 'p) SearchResult list \<Rightarrow> string set" where
  "collection_values rs = set (List.map_filter collection rs)"

section \<open>Example inputs\<close>

definition unit_vector :: "int list" where
  "unit_vector = replicate 1536 0"

definition hits_in :: "string \<Rightarrow> (int, string) hit list" where
  "hits_in c =
     (if c = ''a''
      then [\<lparr>hit_id = ''a1'', score = 3, payload = ''x''\<rparr>, \<lparr>hit_id = ''a2'', score = 1, payload = ''y''\<rparr>]
      else if c = ''b'' then [\<lparr>hit_id = ''b1'', score = 9, payload = ''z''\<rparr>]
      else [])"

text \<open>A store that holds the collections \<open>a\<close> and \<open>b\<close>, and a provider that answers well.\<close>

definition world_ab :: "(int, string) world" where
  "world_ab =
     \<lparr>getCollections = Inr [''a'', ''b''],
      embeddings_create = (\<lambda>model input. Inr [unit_vector]),
      search = (\<lambda>i c v l t p. Inr (hits_in c))\<rparr>"

text \<open>The same store after every collection was deleted.\<close>

definition world_empty :: "(int, string) world" where
  "world_empty = world_ab\<lparr>getCollections := Inr []\<rparr>"

text \<open>The listing call fails.\<close>

definition world_down :: "(int, string) world" where
  "world_down = world_ab\<lparr>getCollections := Inl (Upstream ''ECONNREFUSED'')\<rparr>"

text \<open>The provider answers with a vector of three components.\<close>

definition world_short :: "(int, string) world" where
  "world_short = world_ab\<lparr>embeddings_create := (\<lambda>model input. Inr [[1, 2, 3]])\<rparr>"

text \<open>The search in collection \<open>b\<close> fails.\<close>

definition world_b_fails :: "(int, string) world" where
  "world_b_fails =
     world_ab\<lparr>search := (\<lambda>i c v l t p. if c = ''b'' then Inl (Upstream ''timeout'') else Inr (hits_in c))\<rparr>"

definition settings_ok :: settings where
  "settings_ok =
     \<lparr>openAI = Some \<lparr>endpoint = ''https://api.openai.com/v1'', apiKey = ''sk'', didFillInProviderSettings = True\<rparr>,
      globalSettings = Some \<lparr>qdrantUrl = Some ''https://qdrant.example'', qdrantApiKey = Some ''key''\<rparr>\<rparr>"

definition settings_empty :: settings where
  "settings_empty = \<lparr>openAI = None, globalSettings = None\<rparr>"

definition settings_no_store :: settings where
  "settings_no_store =
     settings_ok\<lparr>globalSettings := Some \<lparr>qdrantUrl = Some ''https://qdrant.example'', qdrantApiKey = None\<rparr>\<rparr>"

definition args_abm :: "int SearchParams" where
  "args_abm =
     \<lparr>query = ''foo'', limit = 5, score_threshold = 0, with_payload = True,
      settings = Some settings_ok, collectionNames = [''a'', ''b'', ''missing'']\<rparr>"

definition args_a :: "int SearchParams" where
  "args_a = args_abm\<lparr>collectionNames := [''a'']\<rparr>"

text \<open>The same request with an empty settings bundle, and with no Qdrant API key.\<close>

definition args_unconfigured :: "int SearchParams" where
  "args_unconfigured = args_abm\<lparr>settings := Some settings_empty\<rparr>"

definition args_no_store :: "int SearchParams" where
  "args_no_store = args_abm\<lparr>settings := Some settings_no_store\<rparr>"

definition args_single_a :: "int SearchParams_single" where
  "args_single_a =
     \<lparr>query = ''foo'', limit = 5, score_threshold = 0, with_payload = True,
      settings = Some settings_ok, collectionName = ''a''\<rparr>"

definition fresh :: service where
  "fresh = \<lparr>collections = {}, client = Some (''https://qdrant.example'', ''key''), trace = []\<rparr>"

definition unbuilt :: service where
  "unbuilt = \<lparr>collections = {}, client = None, trace = []\<rparr>"

definition cached_a :: service where
  "cached_a = fresh\<lparr>collections := {''a''}\<rparr>"

section \<open>Registry lemmas\<close>

lemma check_names_eq:
  "check_names A names (ex, cache) =
     (ex @ filter (\<lambda>n. n \<in> A) names, cache \<union> {n \<in> set names. n \<in> A})"
  by (induction names arbitrary: ex cache) auto

lemma ensureCollectionsExist_listing:
  "getCollections w = Inr listing \<Longrightarrow>
   ensureCollectionsExist w names s =
     (filter (\<lambda>n. n \<in> set listing) names,
      s\<lparr>collections := collections s \<union> {n \<in> set names. n \<in> set listing},
        trace := trace s @ [QdrantGetCollections]\<rparr>)"
  by (simp add: ensureCollectionsExist_def check_names_eq record_call_def)

lemma ensureCollectionsExist_failed:
  "getCollections w = Inl e \<Longrightarrow>
   ensureCollectionsExist w names s = ([], record_call QdrantGetCollections s)"
  by (simp add: ensureCollectionsExist_def)

lemma ensureCollectionsExist_result:
  assumes "ensureCollectionsExist w names s = (ex, s1)"
  shows "trace s1 = trace s @ [QdrantGetCollections]"
    and "client s1 = client s"
    and "collections s \<subseteq> collections s1"
    and "set ex \<subseteq> collections s1"
    and "ex = (case getCollections w of Inl e \<Rightarrow> [] | Inr listing \<Rightarrow> filter (\<lambda>n. n \<in> set listing) names)"
  using assms
  by (cases "getCollections w";
      auto simp add: ensureCollectionsExist_listing ensureCollectionsExist_failed record_call_def)+

lemma ensureCollectionsExist_user_result:
  assumes "ensureCollectionsExist_user w names s = (ex, s1)"
  shows "trace s1 = (if client s = None then trace s else trace s @ [QdrantGetCollections])"
    and "client s1 = client s"
    and "collections s \<subseteq> collections s1"
    and "set ex \<subseteq> collections s1"
  using assms ensureCollectionsExist_result [of w names s ex s1]
  by (auto simp add: ensureCollectionsExist_user_def split: if_splits)

lemma ensureCollectionExists_result:
  assumes "ensureCollectionExists w name s = (b, s1)"
  shows "trace s1 = (if name \<in> collections s then trace s else trace s @ [QdrantGetCollections])"
    and "client s1 = client s"
    and "collections s \<subseteq> collections s1"
    and "b \<Longrightarrow> name \<in> collections s1"
  using assms
  by (auto simp add: ensureCollectionExists_def record_call_def Let_def split: if_splits sum.splits)

lemma initializeCollections_eq:
  "initializeCollections w s =
     (case getCollections w of
        Inl e \<Rightarrow> record_call QdrantGetCollections s
      | Inr names \<Rightarrow> (record_call QdrantGetCollections s)\<lparr>collections := set names \<union> collections s\<rparr>)"
  by (simp add: initializeCollections_def record_call_def Let_def union_set_fold split: sum.split)

lemma initializeCollections_cache: "collections s \<subseteq> collections (initializeCollections w s)"
  by (simp add: initializeCollections_eq record_call_def split: sum.split)

lemma initializeCollections_user_cache: "collections s \<subseteq> collections (initializeCollections_user w s)"
  by (simp add: initializeCollections_user_def initializeCollections_cache)

section \<open>Embedding lemmas\<close>

lemma request_embedding_result:
  assumes "request_embedding w text s = (r, s1)"
  shows "s1 = record_call (OpenAIEmbeddingsCreate EMBEDDING_MODEL text) s"
    and "r = (case embeddings_create w EMBEDDING_MODEL text of
                Inl e \<Rightarrow> Inl e
              | Inr [] \<Rightarrow> Inl TypeError
              | Inr (v # rest) \<Rightarrow>
                  if length v \<noteq> 1536 then Inl (UnexpectedEmbeddingSize (length v)) else Inr v)"
  using assms
  by (auto simp add: request_embedding_def VECTOR_SIZE_def Let_def split: sum.splits list.splits if_splits)

lemma getEmbedding_configured:
  "provider_configured st \<Longrightarrow> getEmbedding w text st s = request_embedding w text s"
  by (auto simp add: provider_configured_def getEmbedding_def split: option.splits)

lemma getEmbedding_unconfigured:
  "\<not> provider_configured st \<Longrightarrow>
   getEmbedding w text st s = (Inl (if st = None then TypeError else OpenAINotConfigured), s)"
  by (simp add: provider_configured_def getEmbedding_def split: option.splits)

section \<open>Fan-out lemmas\<close>

lemma promise_all_fulfilled: "promise_all (map Inr xs) = Inr xs"
  by (induction xs) simp_all

lemma promise_all_Inr: "promise_all ps = Inr xs \<Longrightarrow> ps = map Inr xs"
  by (induction ps arbitrary: xs rule: promise_all.induct) (auto split: sum.splits)

lemma promise_all_Inl: "promise_all ps = Inl e \<Longrightarrow> Inl e \<in> set ps"
  by (induction ps rule: promise_all.induct) (auto split: sum.splits)

lemma promise_all_rejects: "Inl e \<in> set ps \<Longrightarrow> \<exists>e'. promise_all ps = Inl e'"
  by (induction ps rule: promise_all.induct) (auto split: sum.splits)

lemma search_collection_events:
  "concat (map fst (map (search_collection w v params) xs)) = map QdrantSearch (map snd xs)"
  by (induction xs) (auto simp add: search_collection_def)

lemma fan_out_result:
  assumes "fan_out (search_collection w v params) cs s = (r, s1)"
  shows "s1 = s\<lparr>trace := trace s @ map QdrantSearch cs\<rparr>"
    and "r = (case promise_all (map snd (map (search_collection w v params) (enumerate 0 cs))) of
                Inl e \<Rightarrow> Inl e | Inr allResults \<Rightarrow> Inr (concat allResults))"
  using assms search_collection_events [of w v params "enumerate 0 cs"]
  by (auto simp add: fan_out_def Let_def split: sum.splits)

lemma search_collection_user_eq:
  "client s \<noteq> None \<Longrightarrow> search_collection_user w s v params = search_collection w v params"
  by (rule ext) (auto simp add: search_collection_user_def)

text \<open>How the promise of the \<open>i\<close>-th callback settles.\<close>

lemma search_collection_nth:
  "i < length cs \<Longrightarrow>
   map snd (map (search_collection w v params) (enumerate 0 cs)) ! i =
     (case search w i (cs ! i) v (limit params) (score_threshold params) (with_payload params) of
        Inl e \<Rightarrow> Inl e | Inr results \<Rightarrow> Inr (map (annotate (cs ! i)) results))"
  by (simp add: search_collection_def nth_enumerate_eq)

section \<open>The calls as pipelines\<close>

lemma ensure_client_fields:
  "client (ensure_client g s) \<noteq> None"
  "trace (ensure_client g s) = trace s"
  "collections (ensure_client g s) = collections s"
  by (simp_all add: ensure_client_def)

lemma call_env_pipeline:
  "provider_configured (settings args) \<Longrightarrow>
   call_env w ''search'' args s = search_pipeline w args s"
  by (simp add: call_env_def search_pipeline_def getEmbedding_configured split: prod.split)

lemma call_user_pipeline:
  assumes "user_settings_accepted (settings args) g"
  shows "call_user w ''search'' args s = search_pipeline w args (ensure_client g s)"
proof -
  let ?s0 = "ensure_client g s"
  obtain bdl where b: "settings args = Some bdl" "globalSettings bdl = Some g"
    using assms by (auto simp add: user_settings_accepted_def store_settings_def split: option.splits)
  have c0: "client ?s0 \<noteq> None" by (rule ensure_client_fields)
  obtain ex s1 where e: "ensureCollectionsExist w (collectionNames args) ?s0 = (ex, s1)"
    by (cases "ensureCollectionsExist w (collectionNames args) ?s0")
  have c1: "client s1 \<noteq> None"
    using ensureCollectionsExist_result(2) [OF e] c0 by simp
  obtain r s2 where q: "request_embedding w (query args) s1 = (r, s2)"
    by (cases "request_embedding w (query args) s1")
  have c2: "client s2 \<noteq> None"
    using request_embedding_result(1) [OF q] c1 by (simp add: record_call_def)
  have "call_user w ''search'' args s =
          (if ex = [] then (Inl NoneOfCollectionsExist, s1)
           else (case r of Inl e \<Rightarrow> (Inl e, s2)
                 | Inr embedding \<Rightarrow> fan_out (search_collection w embedding args) ex s2))"
    using assms b c0 e q c2
    by (auto simp add: call_user_def user_settings_accepted_def ensureCollectionsExist_user_def
        getEmbedding_user_def search_collection_user_eq Let_def split: sum.split)
  also have "\<dots> = search_pipeline w args ?s0"
    using e q by (simp add: search_pipeline_def split: sum.split)
  finally show ?thesis .
qed

lemma search_pipeline_none_confirmed:
  assumes "fst (ensureCollectionsExist w (collectionNames args) s) = []"
  shows "search_pipeline w args s =
           (Inl NoneOfCollectionsExist, snd (ensureCollectionsExist w (collectionNames args) s))"
  using assms by (auto simp add: search_pipeline_def split: prod.splits)

lemma search_pipeline_wrong_size:
  assumes "fst (ensureCollectionsExist w (collectionNames args) s) \<noteq> []"
    and "embeddings_create w EMBEDDING_MODEL (query args) = Inr (v # rest)"
    and "length v \<noteq> 1536"
  shows "search_pipeline w args s =
           (Inl (UnexpectedEmbeddingSize (length v)),
            record_call (OpenAIEmbeddingsCreate EMBEDDING_MODEL (query args))
              (snd (ensureCollectionsExist w (collectionNames args) s)))"
proof -
  obtain ex s1 where e: "ensureCollectionsExist w (collectionNames args) s = (ex, s1)"
    by (cases "ensureCollectionsExist w (collectionNames args) s")
  obtain r s2 where q: "request_embedding w (query args) s1 = (r, s2)"
    by (cases "request_embedding w (query args) s1")
  show ?thesis
    using assms e q request_embedding_result [OF q]
    by (simp add: search_pipeline_def)
qed

lemma search_pipeline_fan_out:
  assumes "fst (ensureCollectionsExist w (collectionNames args) s) = ex" and "ex \<noteq> []"
    and "embeddings_create w EMBEDDING_MODEL (query args) = Inr (v # rest)"
    and "length v = 1536"
  shows "search_pipeline w args s =
           fan_out (search_collection w v args) ex
             (record_call (OpenAIEmbeddingsCreate EMBEDDING_MODEL (query args))
               (snd (ensureCollectionsExist w (collectionNames args) s)))"
proof -
  obtain s1 where e: "ensureCollectionsExist w (collectionNames args) s = (ex, s1)"
    using assms(1) by (cases "ensureCollectionsExist w (collectionNames args) s") simp
  obtain r s2 where q: "request_embedding w (query args) s1 = (r, s2)"
    by (cases "request_embedding w (query args) s1")
  show ?thesis
    using assms e q request_embedding_result [OF q]
    by (simp add: search_pipeline_def)
qed

lemma search_pipeline_success:
  assumes "fst (search_pipeline w args s) = Inr rs"
  shows "\<exists>listing v rest allResults.
           getCollections w = Inr listing \<and>
           embeddings_create w EMBEDDING_MODEL (query args) = Inr (v # rest) \<and>
           length v = 1536 \<and>
           map snd (map (search_collection w v args)
             (enumerate 0 (filter (\<lambda>n. n \<in> set listing) (collectionNames args)))) = map Inr allResults \<and>
           rs = concat allResults"
proof -
  obtain ex s1 where e: "ensureCollectionsExist w (collectionNames args) s = (ex, s1)"
    by (cases "ensureCollectionsExist w (collectionNames args) s")
  obtain r s2 where q: "request_embedding w (query args) s1 = (r, s2)"
    by (cases "request_embedding w (query args) s1")
  from assms e have ne: "ex \<noteq> []"
    by (auto simp add: search_pipeline_def)
  with ensureCollectionsExist_result(5) [OF e]
  obtain listing where l: "getCollections w = Inr listing"
    and ex: "ex = filter (\<lambda>n. n \<in> set listing) (collectionNames args)"
    by (cases "getCollections w") auto
  from assms e q ne obtain v where r: "r = Inr v"
    and f: "fst (fan_out (search_collection w v args) ex s2) = Inr rs"
    by (cases r) (auto simp add: search_pipeline_def)
  from request_embedding_result(2) [OF q] r
  obtain rest where emb: "embeddings_create w EMBEDDING_MODEL (query args) = Inr (v # rest)"
    and len: "length v = 1536"
    by (auto split: sum.splits list.splits if_splits)
  obtain r' s3 where fo: "fan_out (search_collection w v args) ex s2 = (r', s3)"
    by (cases "fan_out (search_collection w v args) ex s2")
  from fan_out_result(2) [OF fo] f fo
  obtain allResults where
    pa: "promise_all (map snd (map (search_collection w v args) (enumerate 0 ex))) = Inr allResults"
    and rs: "rs = concat allResults"
    by (auto split: sum.splits)
  from promise_all_Inr [OF pa] l emb len rs ex show ?thesis by blast
qed

section \<open>The cache over the life of the service\<close>

lemma getEmbedding_result:
  assumes "getEmbedding w text st s = (r, s1)"
  shows "collections s1 = collections s" and "client s1 = client s"
  using assms
  by (auto simp add: getEmbedding_def request_embedding_def record_call_def Let_def
      split: option.splits sum.splits list.splits if_splits)

lemma fan_out_fields:
  "collections (snd (fan_out f cs s)) = collections s"
  "client (snd (fan_out f cs s)) = client s"
  by (simp_all add: fan_out_def Let_def split: sum.split)

lemma call_env_cache: "collections s \<subseteq> collections (snd (call_env w command args s))"
proof (cases "command = ''search''")
  case False
  then show ?thesis by (simp add: call_env_def)
next
  case True
  obtain ex s1 where e: "ensureCollectionsExist w (collectionNames args) s = (ex, s1)"
    by (cases "ensureCollectionsExist w (collectionNames args) s")
  obtain r s2 where q: "getEmbedding w (query args) (settings args) s1 = (r, s2)"
    by (cases "getEmbedding w (query args) (settings args) s1")
  show ?thesis
    using True e q ensureCollectionsExist_result(3) [OF e] getEmbedding_result(1) [OF q]
    by (auto simp add: call_env_def fan_out_fields split: sum.splits)
qed

lemma call_single_cache: "collections s \<subseteq> collections (snd (call_single w command args s))"
proof (cases "command = ''search''")
  case False
  then show ?thesis by (simp add: call_single_def)
next
  case True
  obtain b s1 where e: "ensureCollectionExists w (collectionName args) s = (b, s1)"
    by (cases "ensureCollectionExists w (collectionName args) s")
  obtain r s2 where q: "getEmbedding w (query args) (settings args) s1 = (r, s2)"
    by (cases "getEmbedding w (query args) (settings args) s1")
  show ?thesis
    using True e q ensureCollectionExists_result(3) [OF e] getEmbedding_result(1) [OF q]
    by (auto simp add: call_single_def record_call_def split: sum.splits)
qed

lemma call_user_cache: "collections s \<subseteq> collections (snd (call_user w command args s))"
proof (cases "command = ''search'' \<and> (\<exists>g. user_settings_accepted (settings args) g)")
  case False
  then show ?thesis
    by (auto simp add: call_user_def user_settings_accepted_def store_settings_def Let_def
        split: option.splits)
next
  case True
  then obtain g where g: "user_settings_accepted (settings args) g" and c: "command = ''search''"
    by blast
  obtain ex s1 where e: "ensureCollectionsExist w (collectionNames args) (ensure_client g s) = (ex, s1)"
    by (cases "ensureCollectionsExist w (collectionNames args) (ensure_client g s)")
  obtain r s2 where q: "request_embedding w (query args) s1 = (r, s2)"
    by (cases "request_embedding w (query args) s1")
  show ?thesis
    using e q ensureCollectionsExist_result(3) [OF e] request_embedding_result(1) [OF q]
    unfolding c call_user_pipeline [OF g]
    by (auto simp add: search_pipeline_def fan_out_fields ensure_client_fields record_call_def
        split: sum.splits)
qed

lemma step_cache: "collections s \<subseteq> collections (step x s)"
proof (cases x)
  case (Pair w r)
  then show ?thesis
    by (cases r)
       (simp_all add: initializeCollections_cache initializeCollections_user_cache
          call_env_cache call_user_cache call_single_cache)
qed

lemma fold_step_cache: "collections s \<subseteq> collections (fold step steps s)"
proof (induction steps arbitrary: s)
  case Nil
  then show ?case by simp
next
  case (Cons x steps)
  have "collections s \<subseteq> collections (step x s)" by (rule step_cache)
  also have "\<dots> \<subseteq> collections (fold step steps (step x s))" by (rule Cons.IH)
  finally show ?case by simp
qed

text \<open>
  C10. The cached set of collection names only grows: initialization and every
  validation call keep every cached name, and so does any sequence of initializations
  and calls, whatever the vector database answers along the way (also when it no longer
  lists a cached collection).
\<close>

theorem cache_only_grows:
  "collections s \<subseteq> collections (initializeCollections w s) \<and>
   collections s \<subseteq> collections (initializeCollections_user w s) \<and>
   collections s \<subseteq> collections (snd (ensureCollectionsExist w names s)) \<and>
   collections s \<subseteq> collections (snd (ensureCollectionsExist_user w names s)) \<and>
   collections s \<subseteq> collections (snd (ensureCollectionExists w name s)) \<and>
   collections s \<subseteq> collections (run steps s)"
proof -
  have "collections s \<subseteq> collections (snd (ensureCollectionsExist w names s))"
    using ensureCollectionsExist_result(3) [of w names s] by (cases "ensureCollectionsExist w names s") simp
  moreover have "collections s \<subseteq> collections (snd (ensureCollectionsExist_user w names s))"
    using ensureCollectionsExist_user_result(3) [of w names s]
    by (cases "ensureCollectionsExist_user w names s") simp
  moreover have "collections s \<subseteq> collections (snd (ensureCollectionExists w name s))"
    using ensureCollectionExists_result(3) [of w name s]
    by (cases "ensureCollectionExists w name s") simp
  ultimately show ?thesis
    by (simp add: initializeCollections_cache initializeCollections_user_cache run_def fold_step_cache)
qed

theorem cache_only_grows_witness:
  "''a'' \<in> collections (run [(world_ab, Call ''search'' args_abm), (world_empty, Call ''search'' args_abm)] fresh)"
proof -
  have "''a'' \<in> collections (run [(world_ab, Call ''search'' args_abm)] fresh)"
    by (simp add: run_def call_env_def ensureCollectionsExist_def world_ab_def args_abm_def
        fresh_def record_call_def getEmbedding_def settings_ok_def request_embedding_def
        unit_vector_def VECTOR_SIZE_def fan_out_def Let_def split: sum.split)
  then show ?thesis
    using cache_only_grows [of "run [(world_ab, Call ''search'' args_abm)] fresh" world_empty "[]" "''a''"
        "[(world_empty, Call ''search'' args_abm)]"]
    by (auto simp add: run_def)
qed

section \<open>Failure of the listing call\<close>

text \<open>
  C8. When the listing call fails, validation confirms nothing and returns normally:
  \<open>ensureCollectionsExist\<close> (env and user variant) returns the empty list, having made
  the one listing call and left the cache alone; \<open>ensureCollectionExists\<close> (single
  variant), which lists only for a name it has not cached, returns \<open>false\<close>. None of
  the three has an error result at all.
\<close>

theorem listing_failure_confirms_nothing:
  "getCollections w = Inl e \<Longrightarrow>
     ensureCollectionsExist w names s = ([], record_call QdrantGetCollections s) \<and>
     fst (ensureCollectionsExist_user w names s) = [] \<and>
     collections (snd (ensureCollectionsExist_user w names s)) = collections s \<and>
     (name \<notin> collections s \<longrightarrow>
        ensureCollectionExists w name s = (False, record_call QdrantGetCollections s))"
  by (simp add: ensureCollectionsExist_failed ensureCollectionsExist_user_def
      ensureCollectionExists_def record_call_def)

theorem listing_failure_confirms_nothing_witness:
  "getCollections world_down = Inl (Upstream ''ECONNREFUSED'') \<and>
   ensureCollectionsExist world_down [''a'', ''b''] fresh = ([], record_call QdrantGetCollections fresh) \<and>
   fst (ensureCollectionsExist_user world_down [''a'', ''b''] fresh) = [] \<and>
   ''a'' \<notin> collections fresh \<and>
   ensureCollectionExists world_down ''a'' fresh = (False, record_call QdrantGetCollections fresh)"
proof -
  have h: "getCollections world_down = Inl (Upstream ''ECONNREFUSED'')"
    by (simp add: world_down_def world_ab_def)
  have c: "''a'' \<notin> collections fresh"
    by (simp add: fresh_def)
  from listing_failure_confirms_nothing [OF h, of "[''a'', ''b'']" fresh "''a''"] h c
  show ?thesis by simp
qed

section \<open>No confirmed collection\<close>

text \<open>
  C4. A search request for which validation confirms no collection fails with the
  "none of the requested collections exist" error, and the calls it has made are the
  listing call only: no embedding request. In the user variant validation is reached
  when the settings are accepted; in the single variant the error names the collection.
\<close>

theorem no_confirmed_collection_no_embedding:
  "(fst (ensureCollectionsExist w (collectionNames args) s) = [] \<longrightarrow>
      fst (call_env w ''search'' args s) = Inl NoneOfCollectionsExist \<and>
      trace (snd (call_env w ''search'' args s)) = trace s @ [QdrantGetCollections]) \<and>
   (user_settings_accepted (settings args) g \<and>
    fst (ensureCollectionsExist_user w (collectionNames args) (ensure_client g s)) = [] \<longrightarrow>
      fst (call_user w ''search'' args s) = Inl NoneOfCollectionsExist \<and>
      trace (snd (call_user w ''search'' args s)) = trace s @ [QdrantGetCollections]) \<and>
   (\<not> fst (ensureCollectionExists w (collectionName args1) s) \<longrightarrow>
      fst (call_single w ''search'' args1 s) = Inl (CollectionDoesNotExist (collectionName args1)) \<and>
      trace (snd (call_single w ''search'' args1 s)) = trace s @ [QdrantGetCollections])"
proof (intro conjI impI)
  obtain ex s1 where e: "ensureCollectionsExist w (collectionNames args) s = (ex, s1)"
    by (cases "ensureCollectionsExist w (collectionNames args) s")
  assume "fst (ensureCollectionsExist w (collectionNames args) s) = []"
  with e ensureCollectionsExist_result(1) [OF e]
  show "fst (call_env w ''search'' args s) = Inl NoneOfCollectionsExist"
    and "trace (snd (call_env w ''search'' args s)) = trace s @ [QdrantGetCollections]"
    by (simp_all add: call_env_def)
next
  let ?s0 = "ensure_client g s"
  obtain ex s1 where e: "ensureCollectionsExist w (collectionNames args) ?s0 = (ex, s1)"
    by (cases "ensureCollectionsExist w (collectionNames args) ?s0")
  assume a: "user_settings_accepted (settings args) g \<and>
    fst (ensureCollectionsExist_user w (collectionNames args) ?s0) = []"
  then have "ex = []"
    using e by (simp add: ensureCollectionsExist_user_def ensure_client_fields)
  moreover from a have "user_settings_accepted (settings args) g" ..
  note call_user_pipeline [OF this, of w s]
  ultimately
  show "fst (call_user w ''search'' args s) = Inl NoneOfCollectionsExist"
    and "trace (snd (call_user w ''search'' args s)) = trace s @ [QdrantGetCollections]"
    using e ensureCollectionsExist_result(1) [OF e]
    by (simp_all add: search_pipeline_def ensure_client_fields)
next
  obtain b s1 where e: "ensureCollectionExists w (collectionName args1) s = (b, s1)"
    by (cases "ensureCollectionExists w (collectionName args1) s")
  assume a: "\<not> fst (ensureCollectionExists w (collectionName args1) s)"
  with e have "collectionName args1 \<notin> collections s"
    by (auto simp add: ensureCollectionExists_def)
  with a e ensureCollectionExists_result(1) [OF e]
  show "fst (call_single w ''search'' args1 s) = Inl (CollectionDoesNotExist (collectionName args1))"
    and "trace (snd (call_single w ''search'' args1 s)) = trace s @ [QdrantGetCollections]"
    by (simp_all add: call_single_def)
qed

theorem no_confirmed_collection_no_embedding_witness:
  "fst (ensureCollectionsExist world_empty (collectionNames args_abm) fresh) = [] \<and>
   call_env world_empty ''search'' args_abm fresh =
     (Inl NoneOfCollectionsExist, fresh\<lparr>trace := [QdrantGetCollections]\<rparr>) \<and>
   user_settings_accepted (settings args_abm) \<lparr>qdrantUrl = Some ''https://qdrant.example'', qdrantApiKey = Some ''key''\<rparr> \<and>
   fst (call_user world_empty ''search'' args_abm unbuilt) = Inl NoneOfCollectionsExist \<and>
   trace (snd (call_user world_empty ''search'' args_abm unbuilt)) = [QdrantGetCollections] \<and>
   \<not> fst (ensureCollectionExists world_empty (collectionName args_single_a) fresh) \<and>
   fst (call_single world_empty ''search'' args_single_a fresh) = Inl (CollectionDoesNotExist ''a'') \<and>
   trace (snd (call_single world_empty ''search'' args_single_a fresh)) = [QdrantGetCollections]"
proof -
  let ?g = "\<lparr>qdrantUrl = Some ''https://qdrant.example'', qdrantApiKey = Some ''key''\<rparr>"
  have 1: "ensureCollectionsExist world_empty (collectionNames args_abm) s =
             ([], s\<lparr>trace := trace s @ [QdrantGetCollections]\<rparr>)" for s
    by (simp add: ensureCollectionsExist_listing [of _ "[]"] world_empty_def world_ab_def)
  have 2: "user_settings_accepted (settings args_abm) ?g"
    by (simp add: user_settings_accepted_def provider_configured_def store_settings_def
        args_abm_def settings_ok_def falsy_def)
  have 3: "\<not> fst (ensureCollectionExists world_empty (collectionName args_single_a) fresh)"
    by (simp add: ensureCollectionExists_def world_empty_def world_ab_def fresh_def
        args_single_a_def)
  have 4: "call_env world_empty ''search'' args_abm fresh =
     (Inl NoneOfCollectionsExist, fresh\<lparr>trace := [QdrantGetCollections]\<rparr>)"
    by (simp add: call_env_def 1 fresh_def)
  have 5: "fst (ensureCollectionsExist_user world_empty (collectionNames args_abm) (ensure_client ?g unbuilt)) = []"
    by (simp add: ensureCollectionsExist_user_def 1)
  from no_confirmed_collection_no_embedding
    [of world_empty args_abm fresh ?g args_single_a] 1 2 3 4
    no_confirmed_collection_no_embedding [of world_empty args_abm unbuilt ?g args_single_a] 5
  show ?thesis
    by (simp add: fresh_def unbuilt_def args_single_a_def)
qed

section \<open>Embedding of the wrong length\<close>

text \<open>
  C5. When the embedding provider answers the request with a vector whose length is
  not 1536, the search request fails with the dimension error, and the calls it has
  made are the listing call and the embedding request: no search call is issued. The
  embedding request is reached when a collection was confirmed and the settings are
  accepted.
\<close>

theorem wrong_dimension_no_search:
  "embeddings_create w EMBEDDING_MODEL (query args) = Inr (v # rest) \<Longrightarrow> length v \<noteq> 1536 \<Longrightarrow>
   (provider_configured (settings args) \<and>
    fst (ensureCollectionsExist w (collectionNames args) s) \<noteq> [] \<longrightarrow>
      fst (call_env w ''search'' args s) = Inl (UnexpectedEmbeddingSize (length v)) \<and>
      trace (snd (call_env w ''search'' args s)) =
        trace s @ [QdrantGetCollections, OpenAIEmbeddingsCreate EMBEDDING_MODEL (query args)]) \<and>
   (user_settings_accepted (settings args) g \<and>
    fst (ensureCollectionsExist w (collectionNames args) (ensure_client g s)) \<noteq> [] \<longrightarrow>
      fst (call_user w ''search'' args s) = Inl (UnexpectedEmbeddingSize (length v)) \<and>
      trace (snd (call_user w ''search'' args s)) =
        trace s @ [QdrantGetCollections, OpenAIEmbeddingsCreate EMBEDDING_MODEL (query args)])"
proof (intro conjI impI)
  assume emb: "embeddings_create w EMBEDDING_MODEL (query args) = Inr (v # rest)"
    and len: "length v \<noteq> 1536"
  {
    fix s0 :: service
    assume ne: "fst (ensureCollectionsExist w (collectionNames args) s0) \<noteq> []"
    obtain ex s1 where e: "ensureCollectionsExist w (collectionNames args) s0 = (ex, s1)"
      by (cases "ensureCollectionsExist w (collectionNames args) s0")
    from search_pipeline_wrong_size [OF ne emb len] e ensureCollectionsExist_result(1) [OF e]
    have "fst (search_pipeline w args s0) = Inl (UnexpectedEmbeddingSize (length v)) \<and>
          trace (snd (search_pipeline w args s0)) =
            trace s0 @ [QdrantGetCollections, OpenAIEmbeddingsCreate EMBEDDING_MODEL (query args)]"
      by (simp add: record_call_def)
  }
  note pipeline = this
  {
    assume "provider_configured (settings args) \<and>
      fst (ensureCollectionsExist w (collectionNames args) s) \<noteq> []"
    with pipeline [of s]
    show "fst (call_env w ''search'' args s) = Inl (UnexpectedEmbeddingSize (length v))"
      and "trace (snd (call_env w ''search'' args s)) =
        trace s @ [QdrantGetCollections, OpenAIEmbeddingsCreate EMBEDDING_MODEL (query args)]"
      by (simp_all add: call_env_pipeline)
  }
  {
    assume a: "user_settings_accepted (settings args) g \<and>
      fst (ensureCollectionsExist w (collectionNames args) (ensure_client g s)) \<noteq> []"
    then have "user_settings_accepted (settings args) g" ..
    note call_user_pipeline [OF this, of w s]
    with a pipeline [of "ensure_client g s"]
    show "fst (call_user w ''search'' args s) = Inl (UnexpectedEmbeddingSize (length v))"
      and "trace (snd (call_user w ''search'' args s)) =
        trace s @ [QdrantGetCollections, OpenAIEmbeddingsCreate EMBEDDING_MODEL (query args)]"
      by (simp_all add: ensure_client_fields)
  }
qed


theorem wrong_dimension_no_search_witness:
  "embeddings_create world_short EMBEDDING_MODEL (query args_abm) = Inr [[1, 2, 3]] \<and>
   length [1, 2, 3 :: int] \<noteq> 1536 \<and>
   provider_configured (settings args_abm) \<and>
   fst (ensureCollectionsExist world_short (collectionNames args_abm) fresh) = [''a'', ''b''] \<and>
   fst (call_env world_short ''search'' args_abm fresh) = Inl (UnexpectedEmbeddingSize 3) \<and>
   trace (snd (call_env world_short ''search'' args_abm fresh)) =
     [QdrantGetCollections, OpenAIEmbeddingsCreate ''text-embedding-3-small'' ''foo''] \<and>
   user_settings_accepted (settings args_abm)
     \<lparr>qdrantUrl = Some ''https://qdrant.example'', qdrantApiKey = Some ''key''\<rparr> \<and>
   fst (call_user world_short ''search'' args_abm unbuilt) = Inl (UnexpectedEmbeddingSize 3) \<and>
   trace (snd (call_user world_short ''search'' args_abm unbuilt)) =
     [QdrantGetCollections, OpenAIEmbeddingsCreate ''text-embedding-3-small'' ''foo'']"
proof -
  let ?g = "\<lparr>qdrantUrl = Some ''https://qdrant.example'', qdrantApiKey = Some ''key''\<rparr>"
  have 1: "embeddings_create world_short EMBEDDING_MODEL (query args_abm) = Inr ([1, 2, 3] # [])"
    by (simp add: world_short_def world_ab_def)
  have 2: "length [1, 2, 3 :: int] \<noteq> 1536"
    by simp
  have 3: "provider_configured (settings args_abm)"
    by (simp add: provider_configured_def args_abm_def settings_ok_def)
  have 4: "fst (ensureCollectionsExist world_short (collectionNames args_abm) s) = [''a'', ''b'']" for s
    by (simp add: ensureCollectionsExist_listing [of _ "[''a'', ''b'']"] world_short_def
        world_ab_def args_abm_def)
  have 5: "user_settings_accepted (settings args_abm) ?g"
    by (simp add: user_settings_accepted_def provider_configured_def store_settings_def
        args_abm_def settings_ok_def falsy_def)
  have 6: "query args_abm = ''foo''"
    by (simp add: args_abm_def)
  from wrong_dimension_no_search [OF 1 2, of fresh ?g] wrong_dimension_no_search [OF 1 2, of unbuilt ?g]
    1 2 3 4 5
  show ?thesis
    by (simp add: 6 EMBEDDING_MODEL_def fresh_def unbuilt_def)
qed

section \<open>Outcome of the fan-out\<close>

lemma call_env_success:
  assumes "fst (call_env w command args s) = Inr rs"
  shows "command = ''search''" and "provider_configured (settings args)"
    and "fst (search_pipeline w args s) = Inr rs"
proof -
  show c: "command = ''search''"
    using assms by (auto simp add: call_env_def split: if_splits)
  obtain ex s1 where e: "ensureCollectionsExist w (collectionNames args) s = (ex, s1)"
    by (cases "ensureCollectionsExist w (collectionNames args) s")
  show p: "provider_configured (settings args)"
  proof (rule ccontr)
    assume "\<not> provider_configured (settings args)"
    from getEmbedding_unconfigured [OF this, of w "query args" s1] assms c e show False
      by (simp add: call_env_def split: if_splits)
  qed
  from assms c call_env_pipeline [OF p, of w s] show "fst (search_pipeline w args s) = Inr rs"
    by simp
qed

lemma call_user_success:
  assumes "fst (call_user w command args s) = Inr rs"
  shows "\<exists>g. command = ''search'' \<and> user_settings_accepted (settings args) g \<and>
           fst (search_pipeline w args (ensure_client g s)) = Inr rs"
proof -
  have c: "command = ''search''"
    using assms by (auto simp add: call_user_def split: if_splits)
  from assms c obtain g where g: "user_settings_accepted (settings args) g"
    by (auto simp add: call_user_def user_settings_accepted_def store_settings_def
        split: if_splits option.splits)
  from assms c call_user_pipeline [OF g, of w s] g show ?thesis
    by auto
qed

lemma search_collection_fulfilled:
  "snd (search_collection w v args x) = Inr y \<Longrightarrow>
   y = (case x of (i, c) \<Rightarrow> map (annotate c)
          (fulfilled (search w i c v (limit args) (score_threshold args) (with_payload args))))"
  by (cases x) (auto simp add: search_collection_def fulfilled_def split: sum.splits)

lemma all_fulfilled:
  "map snd (map (search_collection w v args) xs) = map Inr ys \<Longrightarrow>
   ys = map (\<lambda>(i, c). map (annotate c)
          (fulfilled (search w i c v (limit args) (score_threshold args) (with_payload args)))) xs"
proof (induction xs arbitrary: ys)
  case Nil
  then show ?case by simp
next
  case (Cons x xs)
  then obtain y ys' where ys: "ys = y # ys'"
    by (cases ys) auto
  with Cons.prems have "snd (search_collection w v args x) = Inr y"
    and "map snd (map (search_collection w v args) xs) = map Inr ys'"
    by simp_all
  with Cons.IH [of ys'] search_collection_fulfilled [of w v args x y] ys
  show ?case by simp
qed

lemma search_pipeline_response:
  assumes "fst (search_pipeline w args s) = Inr rs"
  shows "\<exists>listing v rest.
           getCollections w = Inr listing \<and>
           embeddings_create w EMBEDDING_MODEL (query args) = Inr (v # rest) \<and>
           rs = concatenated_hits w args v (filter (\<lambda>n. n \<in> set listing) (collectionNames args))"
proof -
  from search_pipeline_success [OF assms]
  obtain listing v rest allResults where l: "getCollections w = Inr listing"
    and emb: "embeddings_create w EMBEDDING_MODEL (query args) = Inr (v # rest)"
    and m: "map snd (map (search_collection w v args)
             (enumerate 0 (filter (\<lambda>n. n \<in> set listing) (collectionNames args)))) = map Inr allResults"
    and rs: "rs = concat allResults"
    by blast
  from all_fulfilled [OF m] rs
  have "rs = concatenated_hits w args v (filter (\<lambda>n. n \<in> set listing) (collectionNames args))"
    by (simp add: concatenated_hits_def)
  with l emb show ?thesis by blast
qed

lemma collection_values_iff:
  "c \<in> collection_values rs \<longleftrightarrow> (\<exists>r \<in> set rs. collection r = Some c)"
  unfolding collection_values_def
  by (induction rs) (auto split: option.splits)

lemma collection_values_concatenated:
  "collection_values (concatenated_hits w args v confirmed) \<subseteq> set confirmed"
proof
  fix c
  assume "c \<in> collection_values (concatenated_hits w args v confirmed)"
  then obtain r where r: "r \<in> set (concatenated_hits w args v confirmed)" and c: "collection r = Some c"
    by (auto simp add: collection_values_iff)
  from r obtain i c' where "(i, c') \<in> set (enumerate 0 confirmed)"
    and "r \<in> annotate c' ` set (fulfilled (search w i c' v (limit args) (score_threshold args) (with_payload args)))"
    by (auto simp add: concatenated_hits_def)
  with c show "c \<in> set confirmed"
    by (auto simp add: annotate_def in_set_enumerate_eq)
qed

section \<open>The example requests, evaluated\<close>

lemma settings_ok_accepted:
  "provider_configured (Some settings_ok)"
  "user_settings_accepted (Some settings_ok)
     \<lparr>qdrantUrl = Some ''https://qdrant.example'', qdrantApiKey = Some ''key''\<rparr>"
  by (simp_all add: user_settings_accepted_def provider_configured_def store_settings_def
      settings_ok_def falsy_def)

lemma call_env_world_ab:
  "call_env world_ab ''search'' args_abm fresh =
     (Inr [\<lparr>hit_id = ''a1'', score = 3, payload = ''x'', collection = Some ''a''\<rparr>,
           \<lparr>hit_id = ''a2'', score = 1, payload = ''y'', collection = Some ''a''\<rparr>,
           \<lparr>hit_id = ''b1'', score = 9, payload = ''z'', collection = Some ''b''\<rparr>],
      fresh\<lparr>collections := {''a'', ''b''},
            trace := [QdrantGetCollections, OpenAIEmbeddingsCreate EMBEDDING_MODEL ''foo'',
                      QdrantSearch ''a'', QdrantSearch ''b'']\<rparr>)"
  by (simp add: call_env_def ensureCollectionsExist_def getEmbedding_def request_embedding_def
      fan_out_def search_collection_def annotate_def record_call_def world_ab_def args_abm_def
      settings_ok_def fresh_def unit_vector_def hits_in_def VECTOR_SIZE_def Let_def insert_commute)

lemma call_user_world_ab:
  "fst (call_user world_ab ''search'' args_abm unbuilt) =
     Inr [\<lparr>hit_id = ''a1'', score = 3, payload = ''x'', collection = Some ''a''\<rparr>,
          \<lparr>hit_id = ''a2'', score = 1, payload = ''y'', collection = Some ''a''\<rparr>,
          \<lparr>hit_id = ''b1'', score = 9, payload = ''z'', collection = Some ''b''\<rparr>]"
  by (simp add: call_user_def provider_configured_def falsy_def ensure_client_def
      ensureCollectionsExist_user_def getEmbedding_user_def search_collection_user_def
      ensureCollectionsExist_def request_embedding_def
      fan_out_def search_collection_def annotate_def record_call_def world_ab_def args_abm_def
      settings_ok_def unbuilt_def unit_vector_def hits_in_def VECTOR_SIZE_def Let_def)

section \<open>Failure of a search call\<close>

text \<open>
  C6. If a search request reaches the fan-out (a collection was confirmed, the settings
  are accepted, the embedding has length 1536) and the search call for some confirmed
  collection fails, then the request fails: its result is an error, the error of a failed
  search call, and so carries no hit of the collections whose calls succeeded. Every
  search call was issued all the same.
\<close>

theorem failed_search_fails_request:
  "getCollections w = Inr listing \<Longrightarrow>
   confirmed = filter (\<lambda>n. n \<in> set listing) (collectionNames args) \<Longrightarrow>
   embeddings_create w EMBEDDING_MODEL (query args) = Inr (v # rest) \<Longrightarrow>
   length v = 1536 \<Longrightarrow>
   i < length confirmed \<Longrightarrow>
   search w i (confirmed ! i) v (limit args) (score_threshold args) (with_payload args) = Inl e \<Longrightarrow>
   (provider_configured (settings args) \<longrightarrow>
      (\<exists>e' j. fst (call_env w ''search'' args s) = Inl e' \<and> j < length confirmed \<and>
         search w j (confirmed ! j) v (limit args) (score_threshold args) (with_payload args) = Inl e') \<and>
      trace (snd (call_env w ''search'' args s)) =
        trace s @ [QdrantGetCollections, OpenAIEmbeddingsCreate EMBEDDING_MODEL (query args)]
          @ map QdrantSearch confirmed) \<and>
   (user_settings_accepted (settings args) g \<longrightarrow>
      (\<exists>e' j. fst (call_user w ''search'' args s) = Inl e' \<and> j < length confirmed \<and>
         search w j (confirmed ! j) v (limit args) (score_threshold args) (with_payload args) = Inl e') \<and>
      trace (snd (call_user w ''search'' args s)) =
        trace s @ [QdrantGetCollections, OpenAIEmbeddingsCreate EMBEDDING_MODEL (query args)]
          @ map QdrantSearch confirmed)"
proof -
  assume l: "getCollections w = Inr listing"
    and cf: "confirmed = filter (\<lambda>n. n \<in> set listing) (collectionNames args)"
    and emb: "embeddings_create w EMBEDDING_MODEL (query args) = Inr (v # rest)"
    and len: "length v = 1536"
    and i: "i < length confirmed"
    and f: "search w i (confirmed ! i) v (limit args) (score_threshold args) (with_payload args) = Inl e"
  let ?ps = "map snd (map (search_collection w v args) (enumerate 0 confirmed))"
  from i have ne: "confirmed \<noteq> []" by auto
  from search_collection_nth [OF i, of w v args] f i have "Inl e \<in> set ?ps"
    by (metis (no_types, lifting) length_enumerate length_map nth_mem sum.simps(5))
  from promise_all_rejects [OF this] obtain e' where pa: "promise_all ?ps = Inl e'" ..
  from promise_all_Inl [OF pa] obtain j where j: "j < length confirmed" and nth: "?ps ! j = Inl e'"
    by (auto simp add: in_set_conv_nth)
  from nth search_collection_nth [OF j, of w v args]
  have fj: "search w j (confirmed ! j) v (limit args) (score_threshold args) (with_payload args) = Inl e'"
    by (auto split: sum.splits)
  have pipeline:
    "fst (search_pipeline w args s0) = Inl e' \<and>
     trace (snd (search_pipeline w args s0)) =
       trace s0 @ [QdrantGetCollections, OpenAIEmbeddingsCreate EMBEDDING_MODEL (query args)]
         @ map QdrantSearch confirmed" for s0
  proof -
    obtain ex s1 where ex: "ensureCollectionsExist w (collectionNames args) s0 = (ex, s1)"
      by (cases "ensureCollectionsExist w (collectionNames args) s0")
    from ensureCollectionsExist_result(5) [OF ex] l cf have c: "ex = confirmed" by simp
    let ?s2 = "record_call (OpenAIEmbeddingsCreate EMBEDDING_MODEL (query args)) s1"
    obtain r s3 where fo: "fan_out (search_collection w v args) confirmed ?s2 = (r, s3)"
      by (cases "fan_out (search_collection w v args) confirmed ?s2")
    from search_pipeline_fan_out [of w args s0 confirmed v rest] ex c ne emb len
    have "search_pipeline w args s0 = fan_out (search_collection w v args) confirmed ?s2"
      by simp
    with fo fan_out_result [OF fo] pa ensureCollectionsExist_result(1) [OF ex]
    show ?thesis by (simp add: record_call_def)
  qed
  show ?thesis
  proof (intro conjI impI)
    assume p: "provider_configured (settings args)"
    from pipeline [of s] j fj
    show "\<exists>e' j. fst (call_env w ''search'' args s) = Inl e' \<and> j < length confirmed \<and>
         search w j (confirmed ! j) v (limit args) (score_threshold args) (with_payload args) = Inl e'"
      unfolding call_env_pipeline [OF p] by blast
    from pipeline [of s]
    show "trace (snd (call_env w ''search'' args s)) =
        trace s @ [QdrantGetCollections, OpenAIEmbeddingsCreate EMBEDDING_MODEL (query args)]
          @ map QdrantSearch confirmed"
      unfolding call_env_pipeline [OF p] by simp
  next
    assume g: "user_settings_accepted (settings args) g"
    from pipeline [of "ensure_client g s"] j fj
    show "\<exists>e' j. fst (call_user w ''search'' args s) = Inl e' \<and> j < length confirmed \<and>
         search w j (confirmed ! j) v (limit args) (score_threshold args) (with_payload args) = Inl e'"
      unfolding call_user_pipeline [OF g] by blast
    from pipeline [of "ensure_client g s"]
    show "trace (snd (call_user w ''search'' args s)) =
        trace s @ [QdrantGetCollections, OpenAIEmbeddingsCreate EMBEDDING_MODEL (query args)]
          @ map QdrantSearch confirmed"
      unfolding call_user_pipeline [OF g] by (simp add: ensure_client_fields)
  qed
qed

theorem failed_search_fails_request_witness:
  "getCollections world_b_fails = Inr [''a'', ''b''] \<and>
   embeddings_create world_b_fails EMBEDDING_MODEL (query args_abm) = Inr [unit_vector] \<and>
   length unit_vector = 1536 \<and>
   search world_b_fails 1 ''b'' unit_vector (limit args_abm) (score_threshold args_abm)
     (with_payload args_abm) = Inl (Upstream ''timeout'') \<and>
   provider_configured (settings args_abm) \<and>
   fst (call_env world_b_fails ''search'' args_abm fresh) = Inl (Upstream ''timeout'') \<and>
   trace (snd (call_env world_b_fails ''search'' args_abm fresh)) =
     [QdrantGetCollections, OpenAIEmbeddingsCreate EMBEDDING_MODEL ''foo'',
      QdrantSearch ''a'', QdrantSearch ''b''] \<and>
   user_settings_accepted (settings args_abm)
     \<lparr>qdrantUrl = Some ''https://qdrant.example'', qdrantApiKey = Some ''key''\<rparr> \<and>
   fst (call_user world_b_fails ''search'' args_abm unbuilt) = Inl (Upstream ''timeout'')"
proof -
  let ?g = "\<lparr>qdrantUrl = Some ''https://qdrant.example'', qdrantApiKey = Some ''key''\<rparr>"
  have 1: "getCollections world_b_fails = Inr [''a'', ''b'']"
    by (simp add: world_b_fails_def world_ab_def)
  have 2: "[''a'', ''b''] = filter (\<lambda>n. n \<in> set [''a'', ''b'']) (collectionNames args_abm)"
    by (simp add: args_abm_def)
  have 3: "embeddings_create world_b_fails EMBEDDING_MODEL (query args_abm) = Inr (unit_vector # [])"
    by (simp add: world_b_fails_def world_ab_def)
  have 4: "length unit_vector = 1536"
    by (simp add: unit_vector_def)
  have 5: "(1::nat) < length [''a'', ''b'']"
    by simp
  have 6: "search world_b_fails 1 ([''a'', ''b''] ! 1) unit_vector (limit args_abm)
     (score_threshold args_abm) (with_payload args_abm) = Inl (Upstream ''timeout'')"
    by (simp add: world_b_fails_def)
  have 7: "search world_b_fails j c unit_vector (limit args_abm)
     (score_threshold args_abm) (with_payload args_abm) = Inl e' \<Longrightarrow> e' = Upstream ''timeout''" for j c e'
    by (simp add: world_b_fails_def split: if_splits)
  have 8: "settings args_abm = Some settings_ok" "query args_abm = ''foo''"
    by (simp_all add: args_abm_def)
  note env = failed_search_fails_request [OF 1 2 3 4 5 6, of fresh ?g]
  note user = failed_search_fails_request [OF 1 2 3 4 5 6, of unbuilt ?g]
  have p: "provider_configured (settings args_abm)"
    and g: "user_settings_accepted (settings args_abm) ?g"
    using settings_ok_accepted by (simp_all add: 8)
  from env p obtain e1 j1 where "fst (call_env world_b_fails ''search'' args_abm fresh) = Inl e1"
    and "search world_b_fails j1 ([''a'', ''b''] ! j1) unit_vector (limit args_abm)
     (score_threshold args_abm) (with_payload args_abm) = Inl e1"
    by blast
  with 7 have r1: "fst (call_env world_b_fails ''search'' args_abm fresh) = Inl (Upstream ''timeout'')"
    by blast
  from user g obtain e2 j2 where "fst (call_user world_b_fails ''search'' args_abm unbuilt) = Inl e2"
    and "search world_b_fails j2 ([''a'', ''b''] ! j2) unit_vector (limit args_abm)
     (score_threshold args_abm) (with_payload args_abm) = Inl e2"
    by blast
  with 7 have r2: "fst (call_user world_b_fails ''search'' args_abm unbuilt) = Inl (Upstream ''timeout'')"
    by blast
  from env p have r3: "trace (snd (call_env world_b_fails ''search'' args_abm fresh)) =
     [QdrantGetCollections, OpenAIEmbeddingsCreate EMBEDDING_MODEL ''foo'',
      QdrantSearch ''a'', QdrantSearch ''b'']"
    by (simp add: 8 fresh_def)
  have b_fails: "search world_b_fails 1 ''b'' unit_vector (limit args_abm) (score_threshold args_abm)
     (with_payload args_abm) = Inl (Upstream ''timeout'')"
    using 6 by simp
  from 1 3 4 b_fails p g r1 r2 r3 show ?thesis
    by simp
qed

section \<open>Order and origin of the results\<close>

text \<open>
  C7. The response of a successful search request is the concatenation of the
  per-collection result lists in the order of the confirmed collections (the requested
  names that the listing holds, in request order); nothing is sorted by score.
\<close>

theorem response_in_confirmed_order:
  "(fst (call_env w command args s) = Inr rs \<longrightarrow>
      (\<exists>listing v rest.
         getCollections w = Inr listing \<and>
         embeddings_create w EMBEDDING_MODEL (query args) = Inr (v # rest) \<and>
         rs = concatenated_hits w args v (filter (\<lambda>n. n \<in> set listing) (collectionNames args)))) \<and>
   (fst (call_user w command args s) = Inr rs \<longrightarrow>
      (\<exists>listing v rest.
         getCollections w = Inr listing \<and>
         embeddings_create w EMBEDDING_MODEL (query args) = Inr (v # rest) \<and>
         rs = concatenated_hits w args v (filter (\<lambda>n. n \<in> set listing) (collectionNames args))))"
  using call_env_success(3) [of w command args s rs] call_user_success [of w command args s rs]
    search_pipeline_response [of w args _ rs]
  by blast

theorem response_in_confirmed_order_witness:
  "fst (call_env world_ab ''search'' args_abm fresh) =
     Inr (concatenated_hits world_ab args_abm unit_vector [''a'', ''b'']) \<and>
   fst (call_user world_ab ''search'' args_abm unbuilt) =
     Inr (concatenated_hits world_ab args_abm unit_vector [''a'', ''b'']) \<and>
   concatenated_hits world_ab args_abm unit_vector [''a'', ''b''] =
     [\<lparr>hit_id = ''a1'', score = 3, payload = ''x'', collection = Some ''a''\<rparr>,
      \<lparr>hit_id = ''a2'', score = 1, payload = ''y'', collection = Some ''a''\<rparr>,
      \<lparr>hit_id = ''b1'', score = 9, payload = ''z'', collection = Some ''b''\<rparr>]"
proof -
  let ?rs = "[\<lparr>hit_id = ''a1'', score = 3, payload = ''x'', collection = Some ''a''\<rparr>,
      \<lparr>hit_id = ''a2'', score = 1, payload = ''y'', collection = Some ''a''\<rparr>,
      \<lparr>hit_id = ''b1'', score = 9 :: int, payload = ''z'', collection = Some ''b''\<rparr>]"
  have 1: "fst (call_env world_ab ''search'' args_abm fresh) = Inr ?rs"
    by (simp add: call_env_world_ab)
  have 2: "getCollections world_ab = Inr listing \<Longrightarrow>
           filter (\<lambda>n. n \<in> set listing) (collectionNames args_abm) = [''a'', ''b'']" for listing
    by (auto simp add: world_ab_def args_abm_def)
  have 3: "embeddings_create world_ab EMBEDDING_MODEL (query args_abm) = Inr (v # rest) \<Longrightarrow>
           v = unit_vector" for v rest
    by (simp add: world_ab_def)
  from response_in_confirmed_order [of world_ab "''search''" args_abm fresh ?rs] 1
  obtain listing v rest where "getCollections world_ab = Inr listing"
    and "embeddings_create world_ab EMBEDDING_MODEL (query args_abm) = Inr (v # rest)"
    and "?rs = concatenated_hits world_ab args_abm v
           (filter (\<lambda>n. n \<in> set listing) (collectionNames args_abm))"
    by blast
  with 2 [of listing] 3 [of v rest]
  have "?rs = concatenated_hits world_ab args_abm unit_vector [''a'', ''b'']"
    by simp
  with 1 call_user_world_ab show ?thesis
    by simp
qed

text \<open>
  C9. On a successful search response, every collection value is one of the confirmed
  collections of the request, hence one of the requested names. (The confirmed list is
  the same from every service state \<open>s'\<close>.)
\<close>

theorem result_collections_confirmed:
  "(fst (call_env w command args s) = Inr rs \<longrightarrow>
      collection_values rs \<subseteq> set (fst (ensureCollectionsExist w (collectionNames args) s')) \<and>
      collection_values rs \<subseteq> set (collectionNames args)) \<and>
   (fst (call_user w command args s) = Inr rs \<longrightarrow>
      collection_values rs \<subseteq> set (fst (ensureCollectionsExist w (collectionNames args) s')) \<and>
      collection_values rs \<subseteq> set (collectionNames args))"
proof -
  have "collection_values rs \<subseteq> set (fst (ensureCollectionsExist w (collectionNames args) s')) \<and>
        collection_values rs \<subseteq> set (collectionNames args)"
    if "fst (search_pipeline w args s0) = Inr rs" for s0
  proof -
    from search_pipeline_response [OF that]
    obtain listing v where l: "getCollections w = Inr listing"
      and rs: "rs = concatenated_hits w args v (filter (\<lambda>n. n \<in> set listing) (collectionNames args))"
      by blast
    from collection_values_concatenated [of w args v "filter (\<lambda>n. n \<in> set listing) (collectionNames args)"]
      rs l
    show ?thesis
      by (auto simp add: ensureCollectionsExist_listing)
  qed
  with call_env_success(3) [of w command args s rs] call_user_success [of w command args s rs]
  show ?thesis by blast
qed

theorem result_collections_confirmed_witness:
  "fst (call_env world_ab ''search'' args_abm fresh) =
     Inr [\<lparr>hit_id = ''a1'', score = 3, payload = ''x'', collection = Some ''a''\<rparr>,
          \<lparr>hit_id = ''a2'', score = 1, payload = ''y'', collection = Some ''a''\<rparr>,
          \<lparr>hit_id = ''b1'', score = 9, payload = ''z'', collection = Some ''b''\<rparr>] \<and>
   {''a'', ''b''} \<subseteq> set (fst (ensureCollectionsExist world_ab (collectionNames args_abm) fresh)) \<and>
   {''a'', ''b''} \<subseteq> set (collectionNames args_abm)"
proof -
  let ?rs = "[\<lparr>hit_id = ''a1'', score = 3, payload = ''x'', collection = Some ''a''\<rparr>,
      \<lparr>hit_id = ''a2'', score = 1, payload = ''y'', collection = Some ''a''\<rparr>,
      \<lparr>hit_id = ''b1'', score = 9 :: int, payload = ''z'', collection = Some ''b''\<rparr>]"
  have 1: "fst (call_env world_ab ''search'' args_abm fresh) = Inr ?rs"
    by (simp add: call_env_world_ab)
  have 2: "collection_values ?rs = {''a'', ''b''}"
    by (simp add: collection_values_def)
  from result_collections_confirmed [of world_ab "''search''" args_abm fresh ?rs fresh] 1 2
  show ?thesis
    by simp
qed

section \<open>Configuration checks\<close>

text \<open>
  C1, as stated: a request without provider settings fails with a configuration error
  before any network call. In the env variant the request with an empty settings bundle
  does fail with the configuration error, but after the listing call was made.
\<close>

theorem configuration_error_after_listing:
  "\<not> provider_configured (settings args_unconfigured) \<and>
   call_env world_ab ''search'' args_unconfigured fresh =
     (Inl OpenAINotConfigured,
      fresh\<lparr>collections := {''a'', ''b''}, trace := [QdrantGetCollections]\<rparr>)"
  by (simp add: provider_configured_def call_env_def ensureCollectionsExist_def getEmbedding_def
      record_call_def world_ab_def args_unconfigured_def args_abm_def settings_empty_def
      fresh_def Let_def insert_commute)

text \<open>
  C1, amended. In the user variant, a search request whose settings bundle has no
  filled-in provider configuration, or whose global settings lack the Qdrant URL or API
  key, fails with the matching configuration error and the service is left as it was:
  no network call. In the env variant the provider configuration is checked by
  \<open>getEmbedding\<close>, after validation: a request without it fails, having made the listing
  call and no other, so never the embedding call; the error is the configuration error
  when a settings bundle is present and a collection was confirmed.
\<close>

theorem configuration_checks:
  "(\<not> provider_configured (settings args) \<longrightarrow>
      call_user w ''search'' args s = (Inl OpenAINotConfigured, s)) \<and>
   (provider_configured (settings args) \<and> store_settings (settings args) = Some g \<and>
    (falsy (qdrantUrl g) \<or> falsy (qdrantApiKey g)) \<longrightarrow>
      call_user w ''search'' args s = (Inl QdrantConfigMissing, s)) \<and>
   (\<not> provider_configured (settings args) \<longrightarrow>
      (\<exists>e. fst (call_env w ''search'' args s) = Inl e) \<and>
      trace (snd (call_env w ''search'' args s)) = trace s @ [QdrantGetCollections] \<and>
      (settings args \<noteq> None \<and> fst (ensureCollectionsExist w (collectionNames args) s) \<noteq> [] \<longrightarrow>
         fst (call_env w ''search'' args s) = Inl OpenAINotConfigured))"
proof (intro conjI impI)
  assume "\<not> provider_configured (settings args)"
  then show "call_user w ''search'' args s = (Inl OpenAINotConfigured, s)"
    by (simp add: call_user_def)
next
  assume "provider_configured (settings args) \<and> store_settings (settings args) = Some g \<and>
    (falsy (qdrantUrl g) \<or> falsy (qdrantApiKey g))"
  then show "call_user w ''search'' args s = (Inl QdrantConfigMissing, s)"
    by (auto simp add: call_user_def store_settings_def split: option.splits)
next
  assume n: "\<not> provider_configured (settings args)"
  obtain ex s1 where e: "ensureCollectionsExist w (collectionNames args) s = (ex, s1)"
    by (cases "ensureCollectionsExist w (collectionNames args) s")
  note emb = getEmbedding_unconfigured [OF n, of w "query args" s1]
  from e emb show "\<exists>e. fst (call_env w ''search'' args s) = Inl e"
    by (simp add: call_env_def)
  from e emb ensureCollectionsExist_result(1) [OF e]
  show "trace (snd (call_env w ''search'' args s)) = trace s @ [QdrantGetCollections]"
    by (simp add: call_env_def)
  assume "settings args \<noteq> None \<and> fst (ensureCollectionsExist w (collectionNames args) s) \<noteq> []"
  with e emb show "fst (call_env w ''search'' args s) = Inl OpenAINotConfigured"
    by (simp add: call_env_def)
qed

theorem configuration_checks_witness:
  "\<not> provider_configured (settings args_unconfigured) \<and>
   call_user world_ab ''search'' args_unconfigured unbuilt = (Inl OpenAINotConfigured, unbuilt) \<and>
   provider_configured (settings args_no_store) \<and>
   store_settings (settings args_no_store) =
     Some \<lparr>qdrantUrl = Some ''https://qdrant.example'', qdrantApiKey = None\<rparr> \<and>
   falsy None \<and>
   call_user world_ab ''search'' args_no_store unbuilt = (Inl QdrantConfigMissing, unbuilt) \<and>
   settings args_unconfigured \<noteq> None \<and>
   fst (ensureCollectionsExist world_ab (collectionNames args_unconfigured) fresh) = [''a'', ''b''] \<and>
   fst (call_env world_ab ''search'' args_unconfigured fresh) = Inl OpenAINotConfigured \<and>
   trace (snd (call_env world_ab ''search'' args_unconfigured fresh)) = [QdrantGetCollections]"
proof -
  let ?g = "\<lparr>qdrantUrl = Some ''https://qdrant.example'', qdrantApiKey = None\<rparr>"
  have 1: "\<not> provider_configured (settings args_unconfigured)"
    and 2: "settings args_unconfigured \<noteq> None"
    by (simp_all add: provider_configured_def args_unconfigured_def settings_empty_def)
  have 3: "provider_configured (settings args_no_store)"
    and 4: "store_settings (settings args_no_store) = Some ?g"
    by (simp_all add: provider_configured_def store_settings_def args_no_store_def
        settings_no_store_def settings_ok_def)
  have 5: "falsy None" "falsy (qdrantApiKey ?g)"
    by (simp_all add: falsy_def)
  have 6: "fst (ensureCollectionsExist world_ab (collectionNames args_unconfigured) fresh) = [''a'', ''b'']"
    by (simp add: ensureCollectionsExist_listing [of _ "[''a'', ''b'']"] world_ab_def
        args_unconfigured_def args_abm_def)
  from configuration_checks [of args_unconfigured world_ab unbuilt ?g]
    configuration_checks [of args_no_store world_ab unbuilt ?g]
    configuration_checks [of args_unconfigured world_ab fresh ?g]
    1 2 3 4 5 6
  show ?thesis
    by (simp add: fresh_def)
qed

section \<open>The collection field\<close>

text \<open>Where a result of the concatenation comes from.\<close>

lemma concatenated_hits_origin:
  assumes "r \<in> set (concatenated_hits w args v confirmed)"
  shows "\<exists>i hits h. i < length confirmed \<and>
           search w i (confirmed ! i) v (limit args) (score_threshold args) (with_payload args) = Inr hits \<and>
           h \<in> set hits \<and> r = annotate (confirmed ! i) h"
proof -
  from assms obtain i c h where ic: "(i, c) \<in> set (enumerate 0 confirmed)"
    and h: "h \<in> set (fulfilled (search w i c v (limit args) (score_threshold args) (with_payload args)))"
    and r: "r = annotate c h"
    by (auto simp add: concatenated_hits_def)
  from ic have i: "i < length confirmed" and c: "c = confirmed ! i"
    by (simp_all add: in_set_enumerate_eq)
  from h obtain hits where
    "search w i c v (limit args) (score_threshold args) (with_payload args) = Inr hits" and "h \<in> set hits"
    by (cases "search w i c v (limit args) (score_threshold args) (with_payload args)")
       (simp_all add: fulfilled_def)
  with i c r show ?thesis by blast
qed

lemma search_pipeline_origin:
  assumes "fst (search_pipeline w args s0) = Inr rs" and "r \<in> set rs"
  shows "\<exists>listing v rest i c hits h.
           getCollections w = Inr listing \<and>
           embeddings_create w EMBEDDING_MODEL (query args) = Inr (v # rest) \<and>
           i < length (filter (\<lambda>n. n \<in> set listing) (collectionNames args)) \<and>
           c = filter (\<lambda>n. n \<in> set listing) (collectionNames args) ! i \<and>
           search w i c v (limit args) (score_threshold args) (with_payload args) = Inr hits \<and>
           h \<in> set hits \<and> r = annotate c h \<and>
           collection r = Some c \<and> c \<in> set (collectionNames args)"
proof -
  from search_pipeline_response [OF assms(1)] assms(2)
  obtain listing v rest where l: "getCollections w = Inr listing"
    and emb: "embeddings_create w EMBEDDING_MODEL (query args) = Inr (v # rest)"
    and r: "r \<in> set (concatenated_hits w args v (filter (\<lambda>n. n \<in> set listing) (collectionNames args)))"
    by blast
  let ?confirmed = "filter (\<lambda>n. n \<in> set listing) (collectionNames args)"
  from concatenated_hits_origin [OF r]
  obtain i hits h where i: "i < length ?confirmed"
    and s: "search w i (?confirmed ! i) v (limit args) (score_threshold args) (with_payload args) = Inr hits"
    and h: "h \<in> set hits" and a: "r = annotate (?confirmed ! i) h"
    by blast
  from i have "?confirmed ! i \<in> set ?confirmed"
    by (rule nth_mem)
  then have m: "?confirmed ! i \<in> set (collectionNames args)"
    by simp
  from a have "collection r = Some (?confirmed ! i)"
    by (simp add: annotate_def)
  with l emb i s h a m show ?thesis
    by blast
qed

lemma call_single_success:
  assumes "fst (call_single w command args s) = Inr hs"
  shows "\<exists>v rest. embeddings_create w EMBEDDING_MODEL (query args) = Inr (v # rest) \<and>
           search w 0 (collectionName args) v (limit args) (score_threshold args) (with_payload args) = Inr hs"
proof -
  have c: "command = ''search''"
    using assms by (auto simp add: call_single_def split: if_splits)
  obtain b s1 where e: "ensureCollectionExists w (collectionName args) s = (b, s1)"
    by (cases "ensureCollectionExists w (collectionName args) s")
  obtain r s2 where q: "getEmbedding w (query args) (settings args) s1 = (r, s2)"
    by (cases "getEmbedding w (query args) (settings args) s1")
  from assms c e q obtain v where r: "r = Inr v"
    and s: "search w 0 (collectionName args) v (limit args) (score_threshold args) (with_payload args) = Inr hs"
    by (cases r) (auto simp add: call_single_def split: if_splits)
  have p: "provider_configured (settings args)"
  proof (rule ccontr)
    assume "\<not> provider_configured (settings args)"
    from getEmbedding_unconfigured [OF this, of w "query args" s1] q r show False
      by simp
  qed
  from q r have "request_embedding w (query args) s1 = (Inr v, s2)"
    by (simp add: getEmbedding_configured [OF p])
  from request_embedding_result(2) [OF this]
  obtain rest where "embeddings_create w EMBEDDING_MODEL (query args) = Inr (v # rest)"
    by (auto split: sum.splits list.splits if_splits)
  with s show ?thesis by blast
qed

text \<open>
  C2, as stated: results carry the collection name only when the request targeted
  several collections. In the env variant a request for the one collection \<open>a\<close>
  returns results that carry \<open>collection = a\<close>.
\<close>

theorem single_target_results_carry_collection:
  "collectionNames args_a = [''a''] \<and>
   fst (call_env world_ab ''search'' args_a fresh) =
     Inr [\<lparr>hit_id = ''a1'', score = 3, payload = ''x'', collection = Some ''a''\<rparr>,
          \<lparr>hit_id = ''a2'', score = 1, payload = ''y'', collection = Some ''a''\<rparr>]"
  by (simp add: call_env_def ensureCollectionsExist_def getEmbedding_def request_embedding_def
      fan_out_def search_collection_def annotate_def record_call_def world_ab_def args_a_def
      args_abm_def settings_ok_def fresh_def unit_vector_def hits_in_def VECTOR_SIZE_def Let_def)

text \<open>
  C2, amended. In the env and user variants, whose requests name a list of collections,
  every result of a successful search carries the originating collection name, however
  many collections the request names: the result is a hit \<open>h\<close> returned by the search
  call in a confirmed collection \<open>c\<close> (the \<open>i\<close>-th of the requested names that the
  listing holds, searched with the embedding of the query), with \<open>collection = c\<close> added
  and nothing else changed. In the single variant, whose requests name one collection,
  the response is the hit list of the search call in that collection as the store
  returned it, a type with no collection field.
\<close>

theorem results_carry_collection:
  "(fst (call_env w command args s) = Inr rs \<and> r \<in> set rs \<longrightarrow>
      (\<exists>listing v rest i c hits h.
         getCollections w = Inr listing \<and>
         embeddings_create w EMBEDDING_MODEL (query args) = Inr (v # rest) \<and>
         i < length (filter (\<lambda>n. n \<in> set listing) (collectionNames args)) \<and>
         c = filter (\<lambda>n. n \<in> set listing) (collectionNames args) ! i \<and>
         search w i c v (limit args) (score_threshold args) (with_payload args) = Inr hits \<and>
         h \<in> set hits \<and> r = annotate c h \<and>
         collection r = Some c \<and> c \<in> set (collectionNames args))) \<and>
   (fst (call_user w command args s) = Inr rs \<and> r \<in> set rs \<longrightarrow>
      (\<exists>listing v rest i c hits h.
         getCollections w = Inr listing \<and>
         embeddings_create w EMBEDDING_MODEL (query args) = Inr (v # rest) \<and>
         i < length (filter (\<lambda>n. n \<in> set listing) (collectionNames args)) \<and>
         c = filter (\<lambda>n. n \<in> set listing) (collectionNames args) ! i \<and>
         search w i c v (limit args) (score_threshold args) (with_payload args) = Inr hits \<and>
         h \<in> set hits \<and> r = annotate c h \<and>
         collection r = Some c \<and> c \<in> set (collectionNames args))) \<and>
   (fst (call_single w command args1 s) = Inr hs \<longrightarrow>
      (\<exists>v rest.
         embeddings_create w EMBEDDING_MODEL (query args1) = Inr (v # rest) \<and>
         search w 0 (collectionName args1) v (limit args1) (score_threshold args1)
           (with_payload args1) = Inr hs))"
proof (intro conjI impI)
  assume a: "fst (call_env w command args s) = Inr rs \<and> r \<in> set rs"
  then have "fst (search_pipeline w args s) = Inr rs" and "r \<in> set rs"
    using call_env_success(3) [of w command args s rs] by simp_all
  then show "\<exists>listing v rest i c hits h.
         getCollections w = Inr listing \<and>
         embeddings_create w EMBEDDING_MODEL (query args) = Inr (v # rest) \<and>
         i < length (filter (\<lambda>n. n \<in> set listing) (collectionNames args)) \<and>
         c = filter (\<lambda>n. n \<in> set listing) (collectionNames args) ! i \<and>
         search w i c v (limit args) (score_threshold args) (with_payload args) = Inr hits \<and>
         h \<in> set hits \<and> r = annotate c h \<and>
         collection r = Some c \<and> c \<in> set (collectionNames args)"
    by (rule search_pipeline_origin)
next
  assume a: "fst (call_user w command args s) = Inr rs \<and> r \<in> set rs"
  with call_user_success [of w command args s rs]
  obtain g where "fst (search_pipeline w args (ensure_client g s)) = Inr rs" and "r \<in> set rs"
    by blast
  then show "\<exists>listing v rest i c hits h.
         getCollections w = Inr listing \<and>
         embeddings_create w EMBEDDING_MODEL (query args) = Inr (v # rest) \<and>
         i < length (filter (\<lambda>n. n \<in> set listing) (collectionNames args)) \<and>
         c = filter (\<lambda>n. n \<in> set listing) (collectionNames args) ! i \<and>
         search w i c v (limit args) (score_threshold args) (with_payload args) = Inr hits \<and>
         h \<in> set hits \<and> r = annotate c h \<and>
         collection r = Some c \<and> c \<in> set (collectionNames args)"
    by (rule search_pipeline_origin)
next
  assume "fst (call_single w command args1 s) = Inr hs"
  then show "\<exists>v rest.
         embeddings_create w EMBEDDING_MODEL (query args1) = Inr (v # rest) \<and>
         search w 0 (collectionName args1) v (limit args1) (score_threshold args1)
           (with_payload args1) = Inr hs"
    by (rule call_single_success)
qed

text \<open>
  A request for \<open>a\<close>, \<open>b\<close> and \<open>missing\<close>: the result \<open>b1\<close> carries \<open>b\<close>, the collection
  whose search call returned it, and not \<open>a\<close>, which is a requested name as well.
\<close>

theorem results_carry_collection_witness:
  "fst (call_env world_ab ''search'' args_abm fresh) =
     Inr [\<lparr>hit_id = ''a1'', score = 3, payload = ''x'', collection = Some ''a''\<rparr>,
          \<lparr>hit_id = ''a2'', score = 1, payload = ''y'', collection = Some ''a''\<rparr>,
          \<lparr>hit_id = ''b1'', score = 9, payload = ''z'', collection = Some ''b''\<rparr>] \<and>
   (\<exists>i h. search world_ab i ''b'' unit_vector (limit args_abm) (score_threshold args_abm)
            (with_payload args_abm) = Inr (hits_in ''b'') \<and>
          h \<in> set (hits_in ''b'') \<and>
          \<lparr>hit_id = ''b1'', score = 9, payload = ''z'', collection = Some ''b''\<rparr> = annotate ''b'' h) \<and>
   ''b'' \<in> set (collectionNames args_abm) \<and>
   fst (call_user world_ab ''search'' args_abm unbuilt) =
     Inr [\<lparr>hit_id = ''a1'', score = 3, payload = ''x'', collection = Some ''a''\<rparr>,
          \<lparr>hit_id = ''a2'', score = 1, payload = ''y'', collection = Some ''a''\<rparr>,
          \<lparr>hit_id = ''b1'', score = 9, payload = ''z'', collection = Some ''b''\<rparr>] \<and>
   fst (call_single world_ab ''search'' args_single_a fresh) = Inr (hits_in ''a'') \<and>
   search world_ab 0 (collectionName args_single_a) unit_vector (limit args_single_a)
     (score_threshold args_single_a) (with_payload args_single_a) = Inr (hits_in ''a'')"
proof -
  let ?r = "\<lparr>hit_id = ''b1'', score = 9 :: int, payload = ''z'', collection = Some ''b''\<rparr>"
  let ?rs = "[\<lparr>hit_id = ''a1'', score = 3, payload = ''x'', collection = Some ''a''\<rparr>,
              \<lparr>hit_id = ''a2'', score = 1, payload = ''y'', collection = Some ''a''\<rparr>, ?r]"
  have 1: "fst (call_env world_ab ''search'' args_abm fresh) = Inr ?rs"
    by (simp add: call_env_world_ab)
  have 2: "fst (call_single world_ab ''search'' args_single_a fresh) = Inr (hits_in ''a'')"
    by (simp add: call_single_def ensureCollectionExists_def getEmbedding_def request_embedding_def
      record_call_def world_ab_def args_single_a_def settings_ok_def fresh_def unit_vector_def
      VECTOR_SIZE_def Let_def)
  have 3: "search world_ab i c v l t p = Inr (hits_in c)" for i c v l t p
    by (simp add: world_ab_def)
  have 4: "embeddings_create world_ab m q = Inr (v # rest) \<Longrightarrow> v = unit_vector" for m q v rest
    by (simp add: world_ab_def)
  note inst = results_carry_collection
    [of world_ab "''search''" args_abm fresh ?rs ?r args_single_a "hits_in ''a''"]
  have mem: "?r \<in> set ?rs"
    by simp
  from mp [OF conjunct1 [OF inst] conjI [OF 1 mem]] obtain listing v rest i c hits h where
    e: "embeddings_create world_ab EMBEDDING_MODEL (query args_abm) = Inr (v # rest)"
    and s: "search world_ab i c v (limit args_abm) (score_threshold args_abm) (with_payload args_abm) = Inr hits"
    and h: "h \<in> set hits" and r: "?r = annotate c h"
    and c: "collection ?r = Some c" and m: "c \<in> set (collectionNames args_abm)"
    by blast
  from c have cb: "c = ''b''" by simp
  from s 3 [of i c v] have hits: "hits = hits_in c" by simp
  from 4 [OF e] have v: "v = unit_vector" .
  from s h r m have 5:
    "\<exists>i h. search world_ab i ''b'' unit_vector (limit args_abm) (score_threshold args_abm)
            (with_payload args_abm) = Inr (hits_in ''b'') \<and>
          h \<in> set (hits_in ''b'') \<and> ?r = annotate ''b'' h"
    and 6: "''b'' \<in> set (collectionNames args_abm)"
    unfolding cb hits v by blast+
  have 7: "collectionName args_single_a = ''a''"
    by (simp add: args_single_a_def)
  from 1 2 3 5 6 7 call_user_world_ab show ?thesis
    by simp
qed

section \<open>Validation and the cache\<close>

text \<open>
  C3, as stated: a requested name that is already cached is accepted at once, without
  contacting the vector database. In the env variant the cached name \<open>a\<close> is looked up
  in a fresh listing all the same, and is not accepted when the listing lacks it.
\<close>

theorem cached_name_is_listed_again:
  "''a'' \<in> collections cached_a \<and>
   ensureCollectionsExist world_empty [''a''] cached_a =
     ([], cached_a\<lparr>trace := [QdrantGetCollections]\<rparr>)"
  by (simp add: ensureCollectionsExist_def record_call_def world_empty_def world_ab_def
      cached_a_def fresh_def)

text \<open>
  C3, amended. In the single variant a cached name is accepted at once, without
  contacting the vector database, and a name that is not cached costs one listing call.
  In the env and user variants every validation call makes exactly one listing call,
  whatever the cache holds and however many names are requested (none in the user
  variant while no client exists), and accepts exactly the requested names that the
  listing holds. In all variants the accepted names are in the cache afterwards.
\<close>

theorem validation_and_cache:
  "(name \<in> collections s \<longrightarrow> ensureCollectionExists w name s = (True, s)) \<and>
   (name \<notin> collections s \<longrightarrow>
      trace (snd (ensureCollectionExists w name s)) = trace s @ [QdrantGetCollections]) \<and>
   (fst (ensureCollectionExists w name s) \<longrightarrow>
      name \<in> collections (snd (ensureCollectionExists w name s))) \<and>
   trace (snd (ensureCollectionsExist w names s)) = trace s @ [QdrantGetCollections] \<and>
   fst (ensureCollectionsExist w names s) =
     (case getCollections w of Inl e \<Rightarrow> [] | Inr listing \<Rightarrow> filter (\<lambda>n. n \<in> set listing) names) \<and>
   set (fst (ensureCollectionsExist w names s)) \<subseteq> collections (snd (ensureCollectionsExist w names s)) \<and>
   trace (snd (ensureCollectionsExist_user w names s)) =
     (if client s = None then trace s else trace s @ [QdrantGetCollections]) \<and>
   set (fst (ensureCollectionsExist_user w names s)) \<subseteq>
     collections (snd (ensureCollectionsExist_user w names s))"
proof -
  obtain b s1 where 1: "ensureCollectionExists w name s = (b, s1)"
    by (cases "ensureCollectionExists w name s")
  obtain ex s2 where 2: "ensureCollectionsExist w names s = (ex, s2)"
    by (cases "ensureCollectionsExist w names s")
  obtain ex' s3 where 3: "ensureCollectionsExist_user w names s = (ex', s3)"
    by (cases "ensureCollectionsExist_user w names s")
  have "name \<in> collections s \<longrightarrow> ensureCollectionExists w name s = (True, s)"
    by (simp add: ensureCollectionExists_def)
  with 1 2 3 ensureCollectionExists_result [OF 1] ensureCollectionsExist_result [OF 2]
    ensureCollectionsExist_user_result [OF 3]
  show ?thesis
    by simp
qed

theorem validation_and_cache_witness:
  "''a'' \<in> collections cached_a \<and>
   ensureCollectionExists world_empty ''a'' cached_a = (True, cached_a) \<and>
   ''b'' \<notin> collections cached_a \<and>
   trace (snd (ensureCollectionExists world_ab ''b'' cached_a)) = [QdrantGetCollections] \<and>
   fst (ensureCollectionExists world_ab ''b'' cached_a) \<and>
   ''b'' \<in> collections (snd (ensureCollectionExists world_ab ''b'' cached_a)) \<and>
   trace (snd (ensureCollectionsExist world_ab [''a'', ''b'', ''missing''] cached_a)) = [QdrantGetCollections] \<and>
   fst (ensureCollectionsExist world_ab [''a'', ''b'', ''missing''] cached_a) = [''a'', ''b'']"
proof -
  have 1: "''a'' \<in> collections cached_a" "''b'' \<notin> collections cached_a" "trace cached_a = []"
    by (simp_all add: cached_a_def fresh_def)
  have 2: "fst (ensureCollectionExists world_ab ''b'' cached_a)"
    by (simp add: ensureCollectionExists_def world_ab_def cached_a_def fresh_def Let_def)
  have 3: "getCollections world_ab = Inr [''a'', ''b'']"
    by (simp add: world_ab_def)
  from validation_and_cache [of "''a''" cached_a world_empty "[]"]
    validation_and_cache [of "''b''" cached_a world_ab "[''a'', ''b'', ''missing'']"]
    1 2 3
  show ?thesis
    by simp
qed

end
